theory Spec2Isabelle
  imports Complex_Main
begin

section \<open>Errors, decimal strings and big integers\<close>

text \<open>An error thrown by the script or by a collaborator, with its message.\<close>

datatype error = Error string

definition is_digit :: "char \<Rightarrow> bool" where
  "is_digit c = (48 \<le> (of_char c :: nat) \<and> (of_char c :: nat) \<le> 57)"

definition digit_val :: "char \<Rightarrow> nat" where
  "digit_val c = of_char c - 48"

definition digit_char :: "nat \<Rightarrow> char" where
  "digit_char n = ''0123456789'' ! (n mod 10)"

text \<open>\<open>BigInt(digits)\<close> for a string of decimal digits.\<close>

definition digits_val :: "string \<Rightarrow> nat" where
  "digits_val ds = foldl (\<lambda>acc c. 10 * acc + digit_val c) 0 ds"

text \<open>\<open>n.toString()\<close> for a non-negative big integer.\<close>

function bigint_toString :: "nat \<Rightarrow> string" where
  "bigint_toString n =
     (if n < 10 then [digit_char n] else bigint_toString (n div 10) @ [digit_char n])"
  by pat_completeness auto
termination
  by (relation "measure id") auto

text \<open>
  Modelled from the spec: \<open>ethers.parseUnits\<close>, a function of the external SDK that no
  source file of the repository defines. The spec (4.2, step 1) has it scale the
  human-readable decimal string by \<open>10^decimals\<close> in exact integer arithmetic: the digits
  after the point are padded with zeros to \<open>decimals\<close> places and the digit string that
  results is read as a big integer. A string that is not a non-negative decimal numeral,
  or that has more fractional digits than \<open>decimals\<close>, has no such exact value: the call
  throws.
\<close>

definition parseUnits :: "string \<Rightarrow> int \<Rightarrow> error + nat" where
  "parseUnits v decimals =
     (let whole = takeWhile is_digit v;
          rest = dropWhile is_digit v;
          fraction = (case rest of [] \<Rightarrow> [] | c # cs \<Rightarrow> if c = CHR ''.'' then cs else rest)
      in if decimals < 0 \<or> \<not> list_all is_digit fraction \<or> (whole = [] \<and> fraction = [])
         then Inl (Error ''invalid decimal string'')
         else if nat decimals < length fraction
         then Inl (Error ''too many decimals'')
         else Inr (digits_val (whole @ fraction
                @ replicate (nat decimals - length fraction) (CHR ''0''))))"


section \<open>Verification agent (verifyContracts.js)\<close>

text \<open>
  The explorer's HTTP API is an external collaborator. One request either throws (axios
  rejects: network error, non-2xx status) or resolves with a body of which the script
  reads the two fields \<open>data.status\<close> and \<open>data.result\<close>.
\<close>

datatype http_result =
    Threw string
  | Response string string

text \<open>The status endpoint, as the sequence of its answers: \<open>ep i\<close> answers request number \<open>i\<close>.\<close>

type_synonym endpoint = "nat \<Rightarrow> http_result"

record status =
  success :: bool
  message :: string

text \<open>
  \<open>checkVerificationStatus(guid, attempts = 30)\<close>: the \<open>for\<close> loop from counter \<open>i\<close> on.
  The result is paired with the number of status requests that were sent.
\<close>

function checkVerificationStatus_from :: "endpoint \<Rightarrow> nat \<Rightarrow> nat \<Rightarrow> status \<times> nat" where
  "checkVerificationStatus_from ep attempts i =
     (if i < attempts then
        (case ep i of
           Response st res \<Rightarrow>
             (if st = ''1'' then (\<lparr>success = True, message = ''Verified''\<rparr>, Suc i)
              else if res = ''Pending in queue'' then checkVerificationStatus_from ep attempts (Suc i)
              else (\<lparr>success = False, message = res\<rparr>, Suc i))
         | Threw err \<Rightarrow> checkVerificationStatus_from ep attempts (Suc i))
      else (\<lparr>success = False, message = ''Verification timeout''\<rparr>, i))"
  by pat_completeness auto
termination
  by (relation "measure (\<lambda>(ep, attempts, i). attempts - i)") auto

definition checkVerificationStatus :: "endpoint \<Rightarrow> nat \<Rightarrow> status \<times> nat" where
  "checkVerificationStatus ep attempts = checkVerificationStatus_from ep attempts 0"

text \<open>The default value of the parameter \<open>attempts\<close>.\<close>

definition default_attempts :: nat where
  "default_attempts = 30"

text \<open>
  What \<open>verifyContract\<close> needs from outside: reading the contract source and encoding
  the constructor arguments (either may throw), the answer to the submission request,
  and the status endpoint for a given GUID.
\<close>

record verifier_env =
  loadContractSource :: "error + string"
  encodeConstructorArgs :: "error + string"
  submit :: http_result
  status_endpoint :: "string \<Rightarrow> endpoint"

text \<open>\<open>verifyContract\<close>: the boolean it returns, and the number of status requests sent.\<close>

definition verifyContract :: "verifier_env \<Rightarrow> bool \<times> nat" where
  "verifyContract env =
     (case loadContractSource env of
        Inl err \<Rightarrow> (False, 0)
      | Inr sourceCode \<Rightarrow>
          (case encodeConstructorArgs env of
             Inl err \<Rightarrow> (False, 0)
           | Inr constructorArgs \<Rightarrow>
               (case submit env of
                  Threw err \<Rightarrow> (False, 0)
                | Response st guid \<Rightarrow>
                    (if st = ''1'' then
                       (case checkVerificationStatus (status_endpoint env guid) default_attempts of
                          (status, polls) \<Rightarrow> (success status, polls))
                     else (False, 0)))))"

text \<open>The three ways one iteration of the loop can go.\<close>

definition is_success :: "http_result \<Rightarrow> bool" where
  "is_success r = (case r of Response st res \<Rightarrow> st = ''1'' | Threw err \<Rightarrow> False)"

definition is_pending :: "http_result \<Rightarrow> bool" where
  "is_pending r = (case r of Response st res \<Rightarrow> st \<noteq> ''1'' \<and> res = ''Pending in queue'' | Threw err \<Rightarrow> False)"

definition is_threw :: "http_result \<Rightarrow> bool" where
  "is_threw r = (case r of Response st res \<Rightarrow> False | Threw err \<Rightarrow> True)"

definition continues :: "http_result \<Rightarrow> bool" where
  "continues r = (is_pending r \<or> is_threw r)"

text \<open>The result of an iteration that ends the loop.\<close>

definition terminal_status :: "http_result \<Rightarrow> status" where
  "terminal_status r =
     (case r of
        Response st res \<Rightarrow>
          (if st = ''1'' then \<lparr>success = True, message = ''Verified''\<rparr>
           else \<lparr>success = False, message = res\<rparr>)
      | Threw err \<Rightarrow> \<lparr>success = False, message = err\<rparr>)"

definition timeout_status :: status where
  "timeout_status = \<lparr>success = False, message = ''Verification timeout''\<rparr>"

text \<open>A response that is neither the success nor the pending one.\<close>

definition is_failure :: "http_result \<Rightarrow> bool" where
  "is_failure r = (case r of Response st res \<Rightarrow> st \<noteq> ''1'' \<and> res \<noteq> ''Pending in queue''
     | Threw err \<Rightarrow> False)"

section \<open>Deployment script (deployTokens.js)\<close>

subsection \<open>Token definitions and deployment records\<close>

text \<open>
  One entry of \<open>tokens.json\<close>. The three feature flags and the holder list are optional
  in the file, which the script reads as \<open>token.mintable || false\<close> and
  \<open>token.initialHolders && ...\<close>.
\<close>

record holder =
  h_address :: string
  h_amount :: string

record token =
  t_name :: string
  t_symbol :: string
  t_decimals :: int
  t_initialSupply :: string
  t_mintable :: "bool option"
  t_burnable :: "bool option"
  t_pausable :: "bool option"
  t_initialHolders :: "holder list option"

record config =
  network :: "string option"
  continueOnError :: "bool option"
  tokens :: "token list"

text \<open>The object that \<open>deployToken\<close> pushes onto \<open>this.deployments\<close>.\<close>

record deployment =
  d_name :: string
  d_symbol :: string
  d_address :: string
  d_decimals :: int
  d_initialSupply :: string
  d_mintable :: bool
  d_burnable :: bool
  d_pausable :: bool
  d_deploymentTx :: string
  d_blockNumber :: nat
  d_gasUsed :: string

text \<open>\<open>flag || false\<close> for an optional boolean.\<close>

definition or_false :: "bool option \<Rightarrow> bool" where
  "or_false flag = (case flag of None \<Rightarrow> False | Some b \<Rightarrow> b)"

subsection \<open>The chain client\<close>

text \<open>
  The blockchain SDK is an external collaborator. The model keeps a log of the requests
  the script makes to the chain client, in order, and takes the answers from outside: each
  answer may depend on everything requested before (the log so far, \<open>hist\<close>) and is
  either a thrown error or a value. The chain client also answers requests for a gas
  estimate (\<open>EstimateGas\<close>, \<open>estimateGas_answer\<close>); whether the script ever makes one is
  a matter of \<open>estimateGas\<close> below.
\<close>

record ctor_args =
  ca_name :: string
  ca_symbol :: string
  ca_decimals :: int
  ca_initialSupply :: nat
  ca_mintable :: bool
  ca_burnable :: bool
  ca_pausable :: bool

record receipt =
  blockNumber :: nat
  gasUsed :: nat

datatype call =
    EstimateGas ctor_args
  | Deploy ctor_args nat
  | WaitForDeployment string
  | GetAddress string
  | WaitDeploymentTx string
  | Transfer string string nat
  | WaitTransfer string

record chain =
  estimateGas_answer :: "call list \<Rightarrow> ctor_args \<Rightarrow> error + nat"
  deploy_answer :: "call list \<Rightarrow> ctor_args \<Rightarrow> nat \<Rightarrow> error + string"
  waitForDeployment_answer :: "call list \<Rightarrow> string \<Rightarrow> error + unit"
  getAddress_answer :: "call list \<Rightarrow> string \<Rightarrow> error + string"
  wait_answer :: "call list \<Rightarrow> string \<Rightarrow> error + receipt"
  transfer_answer :: "call list \<Rightarrow> string \<Rightarrow> string \<Rightarrow> nat \<Rightarrow> error + string"
  waitTransfer_answer :: "call list \<Rightarrow> string \<Rightarrow> error + unit"

text \<open>
  The state of a run: the records accumulated in \<open>this.deployments\<close>, the request log,
  and the files on disk (path to text).
\<close>

type_synonym files = "string \<Rightarrow> string option"

record state =
  deployments :: "deployment list"
  calls :: "call list"
  files :: files

text \<open>
  Statements that may throw, in sequence: \<open>and_then m k\<close> runs \<open>m\<close>, and runs \<open>k\<close> on its
  value unless \<open>m\<close> threw. The state reached when the error is thrown is kept.
\<close>

definition and_then ::
  "('s \<Rightarrow> (error + 'a) \<times> 's) \<Rightarrow> ('a \<Rightarrow> 's \<Rightarrow> (error + 'b) \<times> 's) \<Rightarrow> 's \<Rightarrow> (error + 'b) \<times> 's" where
  "and_then m k s = (case m s of (Inl e, s') \<Rightarrow> (Inl e, s') | (Inr x, s') \<Rightarrow> k x s')"

definition pure_step :: "error + 'a \<Rightarrow> 's \<Rightarrow> (error + 'a) \<times> 's" where
  "pure_step r s = (r, s)"

text \<open>One request to the chain client: logged, then answered.\<close>

definition request :: "call \<Rightarrow> (call list \<Rightarrow> error + 'a) \<Rightarrow> state \<Rightarrow> (error + 'a) \<times> state" where
  "request c answer s = (answer (calls s), s\<lparr>calls := calls s @ [c]\<rparr>)"

subsection \<open>Gas estimation, deployment, distribution\<close>

definition constructor_args :: "token \<Rightarrow> nat \<Rightarrow> ctor_args" where
  "constructor_args token initialSupplyWei =
     \<lparr>ca_name = t_name token, ca_symbol = t_symbol token, ca_decimals = t_decimals token,
      ca_initialSupply = initialSupplyWei,
      ca_mintable = or_false (t_mintable token),
      ca_burnable = or_false (t_burnable token),
      ca_pausable = or_false (t_pausable token)\<rparr>"

text \<open>
  The call in the \<open>try\<close> block of \<open>estimateGas\<close>:
  \<open>factory.getDeployTransaction(...).estimateGas()\<close>. The script is written against
  version 6 of the SDK (\<open>ethers.parseUnits\<close>, \<open>ethers.isAddress\<close>, \<open>waitForDeployment\<close>,
  \<open>getAddress\<close>, \<open>deploymentTransaction\<close>), in which \<open>getDeployTransaction\<close> is an
  async method: its value is a promise, and the call is not awaited before the property
  is looked up. A promise has no property \<open>estimateGas\<close>, so what is called is
  \<open>undefined\<close>: a \<open>TypeError\<close> is thrown at once, for every argument tuple, and no
  request reaches the chain client.
\<close>

definition getDeployTransaction_estimateGas :: "ctor_args \<Rightarrow> error + nat" where
  "getDeployTransaction_estimateGas args =
     Inl (Error ''factory.getDeployTransaction(...).estimateGas is not a function'')"

text \<open>
  \<open>estimateGas(token)\<close>. The \<open>try\<close> block holds the estimation call only;
  \<open>parseUnits\<close> stands before it.
\<close>

definition estimateGas :: "token \<Rightarrow> state \<Rightarrow> (error + nat) \<times> state" where
  "estimateGas token =
     and_then (pure_step (parseUnits (t_initialSupply token) (t_decimals token)))
       (\<lambda>initialSupplyWei s.
          (case getDeployTransaction_estimateGas (constructor_args token initialSupplyWei) of
             Inr estimatedGas \<Rightarrow> (Inr (estimatedGas * 120 div 100), s)
           | Inl err \<Rightarrow> (Inr 3000000, s)))"

text \<open>The body of the \<open>for\<close> loop of \<open>distributeTokens\<close>, and the loop.\<close>

definition transfer_to :: "chain \<Rightarrow> string \<Rightarrow> token \<Rightarrow> holder \<Rightarrow> state \<Rightarrow> (error + unit) \<times> state" where
  "transfer_to ch contract token h =
     and_then (pure_step (parseUnits (h_amount h) (t_decimals token)))
       (\<lambda>amount.
     and_then (request (Transfer contract (h_address h) amount)
                 (\<lambda>hist. transfer_answer ch hist contract (h_address h) amount))
       (\<lambda>tx.
     request (WaitTransfer tx) (\<lambda>hist. waitTransfer_answer ch hist tx)))"

fun distribute_loop :: "chain \<Rightarrow> string \<Rightarrow> token \<Rightarrow> holder list \<Rightarrow> state \<Rightarrow> (error + unit) \<times> state" where
  "distribute_loop ch contract token [] s = (Inr (), s)"
| "distribute_loop ch contract token (h # hs) s =
     (case transfer_to ch contract token h s of
        (Inl e, s') \<Rightarrow> (Inl e, s')
      | (Inr u, s') \<Rightarrow> distribute_loop ch contract token hs s')"

definition holders_of :: "token \<Rightarrow> holder list" where
  "holders_of token = (case t_initialHolders token of None \<Rightarrow> [] | Some hs \<Rightarrow> hs)"

definition distributeTokens :: "chain \<Rightarrow> string \<Rightarrow> token \<Rightarrow> state \<Rightarrow> (error + unit) \<times> state" where
  "distributeTokens ch contract token = distribute_loop ch contract token (holders_of token)"

definition deployment_record :: "token \<Rightarrow> string \<Rightarrow> string \<Rightarrow> receipt \<Rightarrow> deployment" where
  "deployment_record token address tx rcpt =
     \<lparr>d_name = t_name token, d_symbol = t_symbol token, d_address = address,
      d_decimals = t_decimals token, d_initialSupply = t_initialSupply token,
      d_mintable = or_false (t_mintable token),
      d_burnable = or_false (t_burnable token),
      d_pausable = or_false (t_pausable token),
      d_deploymentTx = tx, d_blockNumber = blockNumber rcpt,
      d_gasUsed = bigint_toString (gasUsed rcpt)\<rparr>"

text \<open>\<open>deployToken(token)\<close>: the address it returns, or the error it throws.\<close>

definition deployToken :: "chain \<Rightarrow> token \<Rightarrow> state \<Rightarrow> (error + string) \<times> state" where
  "deployToken ch token =
     and_then (pure_step (parseUnits (t_initialSupply token) (t_decimals token)))
       (\<lambda>initialSupplyWei.
     and_then (estimateGas token)
       (\<lambda>gasLimit.
     and_then (request (Deploy (constructor_args token initialSupplyWei) gasLimit)
                 (\<lambda>hist. deploy_answer ch hist (constructor_args token initialSupplyWei) gasLimit))
       (\<lambda>tx.
     and_then (request (WaitForDeployment tx) (\<lambda>hist. waitForDeployment_answer ch hist tx))
       (\<lambda>u.
     and_then (request (GetAddress tx) (\<lambda>hist. getAddress_answer ch hist tx))
       (\<lambda>address.
     and_then (request (WaitDeploymentTx tx) (\<lambda>hist. wait_answer ch hist tx))
       (\<lambda>rcpt.
     and_then (if holders_of token \<noteq> [] then distributeTokens ch address token
               else pure_step (Inr ()))
       (\<lambda>u s.
          (Inr address,
           s\<lparr>deployments := deployments s @ [deployment_record token address tx rcpt]\<rparr>))))))))"

text \<open>
  The \<open>for\<close> loop of \<open>deploy\<close> over \<open>config.tokens\<close>, with its inner \<open>try\<close>: a token
  that throws is skipped when \<open>config.continueOnError\<close> is truthy, and its error is
  thrown again otherwise.
\<close>

fun deploy_loop :: "chain \<Rightarrow> bool \<Rightarrow> token list \<Rightarrow> state \<Rightarrow> (error + unit) \<times> state" where
  "deploy_loop ch cont [] s = (Inr (), s)"
| "deploy_loop ch cont (token # rest) s =
     (case deployToken ch token s of
        (Inl e, s') \<Rightarrow> (if cont then deploy_loop ch cont rest s' else (Inl e, s'))
      | (Inr address, s') \<Rightarrow> deploy_loop ch cont rest s')"

subsection \<open>JavaScript values and \<open>JSON.stringify\<close>\<close>

text \<open>
  The values the script serialises: strings, booleans, integral numbers, arrays and plain
  objects. An object is the list of its own properties in the order \<open>JSON.stringify\<close>
  visits them.
\<close>

datatype jsval =
    JNull
  | JBool bool
  | JNum int
  | JStr string
  | JArr "jsval list"
  | JObj "(string \<times> jsval) list"

definition hex_char :: "nat \<Rightarrow> char" where
  "hex_char n = ''0123456789abcdef'' ! (n mod 16)"

text \<open>The string form of an integral number (below \<open>10^21\<close> in size, as all here are).\<close>

definition number_toString :: "int \<Rightarrow> string" where
  "number_toString n =
     (if n < 0 then CHR ''-'' # bigint_toString (nat (- n)) else bigint_toString (nat n))"

text \<open>\<open>QuoteJSONString\<close>: the escapes of the double quote, the backslash and the control characters.\<close>

definition quote_char :: "char \<Rightarrow> string" where
  "quote_char c =
     (if c = CHR 0x22 then [CHR 0x5C, CHR 0x22]
      else if c = CHR 0x5C then [CHR 0x5C, CHR 0x5C]
      else if c = CHR 0x08 then [CHR 0x5C, CHR ''b'']
      else if c = CHR 0x09 then [CHR 0x5C, CHR ''t'']
      else if c = CHR 0x0A then [CHR 0x5C, CHR ''n'']
      else if c = CHR 0x0C then [CHR 0x5C, CHR ''f'']
      else if c = CHR 0x0D then [CHR 0x5C, CHR ''r'']
      else if (of_char c :: nat) < 32
        then [CHR 0x5C, CHR ''u'', CHR ''0'', CHR ''0'',
              hex_char (of_char c div 16), hex_char (of_char c mod 16)]
      else [c])"

definition QuoteJSONString :: "string \<Rightarrow> string" where
  "QuoteJSONString s = CHR 0x22 # concat (map quote_char s) @ [CHR 0x22]"

fun join_with :: "string \<Rightarrow> string list \<Rightarrow> string" where
  "join_with sep [] = []"
| "join_with sep [x] = x"
| "join_with sep (x # y # ys) = x @ sep @ join_with sep (y # ys)"

text \<open>
  \<open>JSON.stringify(value, null, 2)\<close>: \<open>serialize ind v\<close> is the text of \<open>v\<close> at the
  indentation \<open>ind\<close>; members go on lines of their own, two spaces deeper.
\<close>

fun serialize :: "string \<Rightarrow> jsval \<Rightarrow> string" where
  "serialize ind JNull = ''null''"
| "serialize ind (JBool b) = (if b then ''true'' else ''false'')"
| "serialize ind (JNum n) = number_toString n"
| "serialize ind (JStr s) = QuoteJSONString s"
| "serialize ind (JArr vs) =
     (if vs = [] then ''[]''
      else ''['' @ [CHR 0x0A] @ (ind @ ''  '')
           @ join_with ('','' @ [CHR 0x0A] @ (ind @ ''  ''))
               (map (serialize (ind @ ''  '')) vs)
           @ [CHR 0x0A] @ ind @ '']'')"
| "serialize ind (JObj ps) =
     (if ps = [] then ''{}''
      else ''{'' @ [CHR 0x0A] @ (ind @ ''  '')
           @ join_with ('','' @ [CHR 0x0A] @ (ind @ ''  ''))
               (map (\<lambda>p. QuoteJSONString (fst p) @ '': '' @ serialize (ind @ ''  '') (snd p)) ps)
           @ [CHR 0x0A] @ ind @ ''}'')"

definition JSON_stringify :: "jsval \<Rightarrow> string" where
  "JSON_stringify v = serialize [] v"

subsection \<open>Property assignment on a plain object\<close>

text \<open>
  \<open>obj[key] = value\<close> on an object created by \<open>{}\<close>. An existing own property keeps its
  place and takes the new value. A new property goes after the others, except that keys
  which are array indices (canonical numerals below \<open>2^32 - 1\<close>) come first, in numeric
  order. The key \<open>__proto__\<close> is the accessor inherited from \<open>Object.prototype\<close>:
  assigning to it sets the prototype (or does nothing) and creates no own property.
\<close>

definition is_array_index :: "string \<Rightarrow> bool" where
  "is_array_index k =
     (k \<noteq> [] \<and> list_all is_digit k \<and> bigint_toString (digits_val k) = k
      \<and> digits_val k < 4294967295)"

fun insert_index :: "string \<Rightarrow> jsval \<Rightarrow> (string \<times> jsval) list \<Rightarrow> (string \<times> jsval) list" where
  "insert_index k v [] = [(k, v)]"
| "insert_index k v (p # ps) =
     (if is_array_index (fst p) \<and> digits_val (fst p) < digits_val k
      then p # insert_index k v ps
      else (k, v) # p # ps)"

definition js_set :: "(string \<times> jsval) list \<Rightarrow> string \<Rightarrow> jsval \<Rightarrow> (string \<times> jsval) list" where
  "js_set ps k v =
     (if k = ''__proto__'' then ps
      else if k \<in> fst ` set ps then map (\<lambda>p. if fst p = k then (k, v) else p) ps
      else if is_array_index k then insert_index k v ps
      else ps @ [(k, v)])"

subsection \<open>Writing the report\<close>

text \<open>
  What \<open>deploy\<close> takes from outside: the network information (or the error of asking
  for it), the content of the configuration file, \<open>ethers.isAddress\<close>, the compiler's
  verdict, the chain client, the wallet's address, the two readings of the clock in
  \<open>saveDeploymentReport\<close>, and which paths can be written.
\<close>

datatype config_source = NoConfigFile | BadConfig error | ConfigFile config

datatype compile_result = CompileThrows error | CompileErrors | Compiled string

record world =
  networkInfo_name :: "error + string"
  config_source :: config_source
  isAddress :: "string \<Rightarrow> bool"
  compile :: compile_result
  chain_client :: chain
  wallet_address :: string
  now_file :: string
  now_report :: string
  writable :: "string \<Rightarrow> bool"

definition writeFileSync :: "world \<Rightarrow> string \<Rightarrow> string \<Rightarrow> state \<Rightarrow> (error + unit) \<times> state" where
  "writeFileSync w path text s =
     (if writable w path then (Inr (), s\<lparr>files := (files s)(path \<mapsto> text)\<rparr>)
      else (Inl (Error ''EACCES: permission denied''), s))"

definition deployment_json :: "deployment \<Rightarrow> jsval" where
  "deployment_json d =
     JObj [(''name'', JStr (d_name d)), (''symbol'', JStr (d_symbol d)),
           (''address'', JStr (d_address d)), (''decimals'', JNum (d_decimals d)),
           (''initialSupply'', JStr (d_initialSupply d)),
           (''mintable'', JBool (d_mintable d)), (''burnable'', JBool (d_burnable d)),
           (''pausable'', JBool (d_pausable d)),
           (''deploymentTx'', JStr (d_deploymentTx d)),
           (''blockNumber'', JNum (int (d_blockNumber d))),
           (''gasUsed'', JStr (d_gasUsed d))]"

definition report_json :: "string \<Rightarrow> string \<Rightarrow> string \<Rightarrow> deployment list \<Rightarrow> jsval" where
  "report_json timestamp net deployer_addr ds =
     JObj [(''timestamp'', JStr timestamp), (''network'', JStr net),
           (''deployer'', JStr deployer_addr),
           (''deployments'', JArr (map deployment_json ds))]"

text \<open>The \<open>forEach\<close> that fills \<open>addressMap\<close>, from the empty object.\<close>

definition addressMap_entry :: "deployment \<Rightarrow> jsval" where
  "addressMap_entry d = JObj [(''address'', JStr (d_address d)), (''decimals'', JNum (d_decimals d))]"

definition addressMap :: "deployment list \<Rightarrow> (string \<times> jsval) list" where
  "addressMap ds = foldl (\<lambda>m d. js_set m (d_symbol d) (addressMap_entry d)) [] ds"

text \<open>\<open>timestamp.replace(/[:.]/g, '-')\<close>\<close>

definition replace_colon_dot :: "string \<Rightarrow> string" where
  "replace_colon_dot s = map (\<lambda>c. if c = CHR '':'' \<or> c = CHR ''.'' then CHR ''-'' else c) s"

definition reportPath :: "string \<Rightarrow> string \<Rightarrow> string" where
  "reportPath net timestamp =
     ''deployments/deployment-'' @ net @ ''-'' @ replace_colon_dot timestamp @ ''.json''"

definition addressPath :: string where
  "addressPath = ''deployments/latest-addresses.json''"

definition abiPath :: string where
  "abiPath = ''deployments/ERC20Token.abi.json''"

text \<open>\<open>saveDeploymentReport(network)\<close>: the report, then the address map.\<close>

definition saveDeploymentReport :: "world \<Rightarrow> string \<Rightarrow> state \<Rightarrow> (error + unit) \<times> state" where
  "saveDeploymentReport w net s =
     and_then
       (writeFileSync w (reportPath net (now_file w))
          (JSON_stringify (report_json (now_report w) net (wallet_address w) (deployments s))))
       (\<lambda>u. writeFileSync w addressPath (JSON_stringify (JObj (addressMap (deployments s))))) s"

subsection \<open>The run\<close>

text \<open>
  A call either returns, throws, or ends the process (\<open>process.exit\<close>).
\<close>

datatype 'a outcome = Return 'a | Throw error | Exit nat

text \<open>
  \<open>validateTokenConfig\<close>. The four required fields are fields of the record
  \<open>token\<close>, so the check that they are defined has nothing to refuse here; the range of
  the decimals and the holder addresses are checked as in the script.
\<close>

definition validateTokenConfig :: "world \<Rightarrow> token \<Rightarrow> error + unit" where
  "validateTokenConfig w token =
     (if t_decimals token < 0 \<or> t_decimals token > 18
      then Inl (Error (''Token '' @ t_name token @ '' has invalid decimals''))
      else if \<exists>h \<in> set (holders_of token). \<not> isAddress w (h_address h)
      then Inl (Error (''Invalid holder address for '' @ t_name token))
      else Inr ())"

fun validate_all :: "world \<Rightarrow> token list \<Rightarrow> error + unit" where
  "validate_all w [] = Inr ()"
| "validate_all w (token # rest) =
     (case validateTokenConfig w token of Inl e \<Rightarrow> Inl e | Inr u \<Rightarrow> validate_all w rest)"

definition loadTokenConfig :: "world \<Rightarrow> config outcome" where
  "loadTokenConfig w =
     (case config_source w of
        NoConfigFile \<Rightarrow> Exit 1
      | BadConfig e \<Rightarrow> Throw e
      | ConfigFile cfg \<Rightarrow>
          (case validate_all w (tokens cfg) of Inl e \<Rightarrow> Throw e | Inr u \<Rightarrow> Return cfg))"

text \<open>\<open>compileContract\<close>, which ends with \<open>saveABI\<close>.\<close>

definition compileContract :: "world \<Rightarrow> state \<Rightarrow> unit outcome \<times> state" where
  "compileContract w s =
     (case compile w of
        CompileThrows e \<Rightarrow> (Throw e, s)
      | CompileErrors \<Rightarrow> (Exit 1, s)
      | Compiled abi \<Rightarrow>
          (case writeFileSync w abiPath abi s of
             (Inl e, s') \<Rightarrow> (Throw e, s')
           | (Inr u, s') \<Rightarrow> (Return (), s')))"

text \<open>\<open>config.network || networkInfo.name\<close>: the empty string is falsy.\<close>

definition network_or :: "string option \<Rightarrow> string \<Rightarrow> string" where
  "network_or n name = (case n of None \<Rightarrow> name | Some x \<Rightarrow> if x = [] then name else x)"

definition truthy :: "bool option \<Rightarrow> bool" where
  "truthy b = (b = Some True)"

text \<open>
  \<open>deploy()\<close>. The outer \<open>catch\<close> turns every error thrown inside into
  \<open>process.exit(1)\<close>. The result is the exit code (\<open>None\<close> when \<open>deploy\<close> returns)
  and the state reached.
\<close>

definition deploy :: "world \<Rightarrow> state \<Rightarrow> nat option \<times> state" where
  "deploy w s =
     (case networkInfo_name w of
        Inl e \<Rightarrow> (Some 1, s)
      | Inr name \<Rightarrow>
          (case loadTokenConfig w of
             Exit c \<Rightarrow> (Some c, s)
           | Throw e \<Rightarrow> (Some 1, s)
           | Return cfg \<Rightarrow>
               (case compileContract w s of
                  (Exit c, s1) \<Rightarrow> (Some c, s1)
                | (Throw e, s1) \<Rightarrow> (Some 1, s1)
                | (Return u, s1) \<Rightarrow>
                    (case deploy_loop (chain_client w) (truthy (continueOnError cfg)) (tokens cfg) s1 of
                       (Inl e, s2) \<Rightarrow> (Some 1, s2)
                     | (Inr u, s2) \<Rightarrow>
                         (if deployments s2 \<noteq> [] then
                            (case saveDeploymentReport w (network_or (network cfg) name) s2 of
                               (Inl e, s3) \<Rightarrow> (Some 1, s3)
                             | (Inr u, s3) \<Rightarrow> (None, s3))
                          else (None, s2))))))"

subsection \<open>\<open>JSON.parse\<close>\<close>

text \<open>
  The JSON grammar as \<open>JSON.parse\<close> reads it: white space between tokens, strings with
  their escapes, numbers without leading zeros, arrays and objects. The model covers
  integral numbers and 8-bit characters: a number with a fraction or an exponent, or a
  hexadecimal escape above \<open>00ff\<close>, is refused here. Properties of a parsed object are
  created in the order of the text (\<open>CreateDataProperty\<close>, which unlike assignment treats
  \<open>__proto__\<close> as any other key).
\<close>

definition js_define :: "(string \<times> jsval) list \<Rightarrow> string \<Rightarrow> jsval \<Rightarrow> (string \<times> jsval) list" where
  "js_define ps k v =
     (if k \<in> fst ` set ps then map (\<lambda>p. if fst p = k then (k, v) else p) ps
      else if is_array_index k then insert_index k v ps
      else ps @ [(k, v)])"

definition is_ws :: "char \<Rightarrow> bool" where
  "is_ws c = (c = CHR 0x20 \<or> c = CHR 0x09 \<or> c = CHR 0x0A \<or> c = CHR 0x0D)"

definition skip_ws :: "string \<Rightarrow> string" where
  "skip_ws s = dropWhile is_ws s"

definition hex_val :: "char \<Rightarrow> nat option" where
  "hex_val c =
     (if is_digit c then Some (digit_val c)
      else map_of (zip ''abcdefABCDEF'' [10, 11, 12, 13, 14, 15, 10, 11, 12, 13, 14, 15]) c)"

text \<open>The characters of a string literal, after the opening quote, up to the closing one.\<close>

fun parse_chars :: "string \<Rightarrow> string \<Rightarrow> (string \<times> string) option" where
  "parse_chars acc [] = None"
| "parse_chars acc (c # r) =
     (if c = CHR 0x22 then Some (acc, r)
      else if c = CHR 0x5C then
        (case r of
           [] \<Rightarrow> None
         | e # r' \<Rightarrow>
             if e = CHR 0x22 then parse_chars (acc @ [CHR 0x22]) r'
             else if e = CHR 0x5C then parse_chars (acc @ [CHR 0x5C]) r'
             else if e = CHR ''/'' then parse_chars (acc @ [CHR ''/'']) r'
             else if e = CHR ''b'' then parse_chars (acc @ [CHR 0x08]) r'
             else if e = CHR ''f'' then parse_chars (acc @ [CHR 0x0C]) r'
             else if e = CHR ''n'' then parse_chars (acc @ [CHR 0x0A]) r'
             else if e = CHR ''r'' then parse_chars (acc @ [CHR 0x0D]) r'
             else if e = CHR ''t'' then parse_chars (acc @ [CHR 0x09]) r'
             else if e = CHR ''u'' then
               (case r' of
                  h1 # h2 # h3 # h4 # r'' \<Rightarrow>
                    (case (hex_val h1, hex_val h2, hex_val h3, hex_val h4) of
                       (Some a, Some b, Some c', Some d) \<Rightarrow>
                         (if a = 0 \<and> b = 0 then parse_chars (acc @ [char_of (16 * c' + d)]) r''
                          else None)
                     | _ \<Rightarrow> None)
                | _ \<Rightarrow> None)
             else None)
      else if (of_char c :: nat) < 32 then None
      else parse_chars (acc @ [c]) r)"

definition parse_number :: "string \<Rightarrow> (jsval \<times> string) option" where
  "parse_number s =
     (let negative = (s \<noteq> [] \<and> hd s = CHR ''-'');
          r = (if negative then tl s else s);
          ds = takeWhile is_digit r;
          rest = dropWhile is_digit r
      in if ds = [] \<or> (1 < length ds \<and> hd ds = CHR ''0'') then None
         else if rest \<noteq> [] \<and> (hd rest = CHR ''.'' \<or> hd rest = CHR ''e'' \<or> hd rest = CHR ''E'')
           then None
         else Some (JNum (if negative then - int (digits_val ds) else int (digits_val ds)), rest))"

definition parse_literal :: "string \<Rightarrow> (jsval \<times> string) option" where
  "parse_literal s =
     (if take 4 s = ''true'' then Some (JBool True, drop 4 s)
      else if take 5 s = ''false'' then Some (JBool False, drop 5 s)
      else if take 4 s = ''null'' then Some (JNull, drop 4 s)
      else None)"

text \<open>
  The recursive descent. The first argument bounds the number of nested calls; \<open>JSON_parse\<close>
  starts it with more than any text can use up.
\<close>

fun parse_value :: "nat \<Rightarrow> string \<Rightarrow> (jsval \<times> string) option"
  and parse_elements :: "nat \<Rightarrow> jsval list \<Rightarrow> string \<Rightarrow> (jsval \<times> string) option"
  and parse_members :: "nat \<Rightarrow> (string \<times> jsval) list \<Rightarrow> string \<Rightarrow> (jsval \<times> string) option" where
  "parse_value 0 s = None"
| "parse_value (Suc n) s =
     (case skip_ws s of
        [] \<Rightarrow> None
      | c # r \<Rightarrow>
          if c = CHR ''{'' then
            (case skip_ws r of
               [] \<Rightarrow> None
             | c' # r' \<Rightarrow> if c' = CHR ''}'' then Some (JObj [], r') else parse_members n [] r)
          else if c = CHR ''['' then
            (case skip_ws r of
               [] \<Rightarrow> None
             | c' # r' \<Rightarrow> if c' = CHR '']'' then Some (JArr [], r') else parse_elements n [] r)
          else if c = CHR 0x22 then
            (case parse_chars [] r of None \<Rightarrow> None | Some (str, r') \<Rightarrow> Some (JStr str, r'))
          else if c = CHR ''-'' \<or> is_digit c then parse_number (c # r)
          else parse_literal (c # r))"
| "parse_elements 0 acc s = None"
| "parse_elements (Suc n) acc s =
     (case parse_value n s of
        None \<Rightarrow> None
      | Some (v, r) \<Rightarrow>
          (case skip_ws r of
             [] \<Rightarrow> None
           | c # r' \<Rightarrow>
               if c = CHR '','' then parse_elements n (acc @ [v]) r'
               else if c = CHR '']'' then Some (JArr (acc @ [v]), r')
               else None))"
| "parse_members 0 acc s = None"
| "parse_members (Suc n) acc s =
     (case skip_ws s of
        [] \<Rightarrow> None
      | q # r \<Rightarrow>
          if q \<noteq> CHR 0x22 then None
          else
            (case parse_chars [] r of
               None \<Rightarrow> None
             | Some (k, r1) \<Rightarrow>
                 (case skip_ws r1 of
                    [] \<Rightarrow> None
                  | c # r2 \<Rightarrow>
                      if c \<noteq> CHR '':'' then None
                      else
                        (case parse_value n r2 of
                           None \<Rightarrow> None
                         | Some (v, r3) \<Rightarrow>
                             (case skip_ws r3 of
                                [] \<Rightarrow> None
                              | c' # r4 \<Rightarrow>
                                  if c' = CHR '','' then parse_members n (js_define acc k v) r4
                                  else if c' = CHR ''}'' then Some (JObj (js_define acc k v), r4)
                                  else None)))))"

definition JSON_parse :: "string \<Rightarrow> error + jsval" where
  "JSON_parse text =
     (case parse_value (2 * length text + 2) text of
        None \<Rightarrow> Inl (Error ''SyntaxError'')
      | Some (v, rest) \<Rightarrow> if skip_ws rest = [] then Inr v else Inl (Error ''SyntaxError''))"

subsection \<open>Reloading a report\<close>

text \<open>
  Reading the reloaded report, as \<open>verifyContracts.js\<close> does after \<open>JSON.parse\<close>:
  property access on the parsed objects (\<open>report.deployments\<close>, \<open>deployment.symbol\<close>, ...).
\<close>

definition get_prop :: "jsval \<Rightarrow> string \<Rightarrow> jsval option" where
  "get_prop v k = (case v of JObj ps \<Rightarrow> map_of ps k | _ \<Rightarrow> None)"

definition get_str :: "jsval \<Rightarrow> string \<Rightarrow> string option" where
  "get_str v k = (case get_prop v k of Some (JStr s) \<Rightarrow> Some s | _ \<Rightarrow> None)"

definition get_num :: "jsval \<Rightarrow> string \<Rightarrow> int option" where
  "get_num v k = (case get_prop v k of Some (JNum n) \<Rightarrow> Some n | _ \<Rightarrow> None)"

definition get_bool :: "jsval \<Rightarrow> string \<Rightarrow> bool option" where
  "get_bool v k = (case get_prop v k of Some (JBool b) \<Rightarrow> Some b | _ \<Rightarrow> None)"

definition deployment_of_json :: "jsval \<Rightarrow> deployment option" where
  "deployment_of_json v =
     Option.bind (get_str v ''name'') (\<lambda>name.
     Option.bind (get_str v ''symbol'') (\<lambda>symbol.
     Option.bind (get_str v ''address'') (\<lambda>address.
     Option.bind (get_num v ''decimals'') (\<lambda>decimals.
     Option.bind (get_str v ''initialSupply'') (\<lambda>initialSupply.
     Option.bind (get_bool v ''mintable'') (\<lambda>mintable.
     Option.bind (get_bool v ''burnable'') (\<lambda>burnable.
     Option.bind (get_bool v ''pausable'') (\<lambda>pausable.
     Option.bind (get_str v ''deploymentTx'') (\<lambda>deploymentTx.
     Option.bind (get_num v ''blockNumber'') (\<lambda>blockNumber.
     Option.bind (get_str v ''gasUsed'') (\<lambda>gasUsed.
       Some \<lparr>d_name = name, d_symbol = symbol, d_address = address, d_decimals = decimals,
             d_initialSupply = initialSupply, d_mintable = mintable, d_burnable = burnable,
             d_pausable = pausable, d_deploymentTx = deploymentTx,
             d_blockNumber = nat blockNumber, d_gasUsed = gasUsed\<rparr>)))))))))))"

definition report_deployments :: "jsval \<Rightarrow> deployment list option" where
  "report_deployments v =
     (case get_prop v ''deployments'' of
        Some (JArr ds) \<Rightarrow> those (map deployment_of_json ds)
      | _ \<Rightarrow> None)"

text \<open>\<open>loadDeploymentReport\<close>, once the file is chosen: read it and parse it.\<close>

definition load_report :: "files \<Rightarrow> string \<Rightarrow> error + jsval" where
  "load_report fs path =
     (case fs path of
        None \<Rightarrow> Inl (Error ''ENOENT: no such file or directory'')
      | Some content \<Rightarrow> JSON_parse content)"

section \<open>Token interaction CLI (interactWithTokens.js)\<close>

text \<open>
  \<open>String.prototype.toUpperCase\<close>, on the letters of ASCII. A \<open>string\<close> here is a list
  of 8-bit characters; what JavaScript does to letters outside ASCII is not modelled, they
  are left as they are.
\<close>

definition upper_char :: "char \<Rightarrow> char" where
  "upper_char c =
     (case map_of (zip ''abcdefghijklmnopqrstuvwxyz'' ''ABCDEFGHIJKLMNOPQRSTUVWXYZ'') c of
        None \<Rightarrow> c
      | Some u \<Rightarrow> u)"

definition toUpperCase :: "string \<Rightarrow> string" where
  "toUpperCase s = map upper_char s"

text \<open>An entry of \<open>latest-addresses.json\<close>, and \<open>this.tokens\<close>.\<close>

record token_data =
  td_address :: string
  td_decimals :: int

type_synonym token_table = "string \<Rightarrow> token_data option"

text \<open>
  The contract functions \<open>grantRole\<close> uses, the log of the requests made to the contract,
  and the contract's answers (given the log so far).
\<close>

datatype role_function = MINTER_ROLE | PAUSER_ROLE | DEFAULT_ADMIN_ROLE

datatype contract_call =
    RoleLookup string role_function
  | GrantRole string string string
  | WaitGrant string

record contract_client =
  role_answer :: "contract_call list \<Rightarrow> string \<Rightarrow> role_function \<Rightarrow> error + string"
  grantRole_answer :: "contract_call list \<Rightarrow> string \<Rightarrow> string \<Rightarrow> string \<Rightarrow> error + string"
  waitGrant_answer :: "contract_call list \<Rightarrow> string \<Rightarrow> error + nat"

definition ask :: "contract_call \<Rightarrow> (contract_call list \<Rightarrow> error + 'a) \<Rightarrow> contract_call list
    \<Rightarrow> (error + 'a) \<times> contract_call list" where
  "ask c answer hist = (answer hist, hist @ [c])"

text \<open>The \<open>switch\<close> statement of \<open>grantRole\<close>, which sets \<open>roleHash\<close>.\<close>

definition role_switch :: "contract_client \<Rightarrow> string \<Rightarrow> string \<Rightarrow> contract_call list
    \<Rightarrow> (error + string) \<times> contract_call list" where
  "role_switch cl address role =
     (if toUpperCase role = ''MINTER''
        then ask (RoleLookup address MINTER_ROLE) (\<lambda>hist. role_answer cl hist address MINTER_ROLE)
      else if toUpperCase role = ''PAUSER''
        then ask (RoleLookup address PAUSER_ROLE) (\<lambda>hist. role_answer cl hist address PAUSER_ROLE)
      else if toUpperCase role = ''ADMIN''
        then ask (RoleLookup address DEFAULT_ADMIN_ROLE)
               (\<lambda>hist. role_answer cl hist address DEFAULT_ADMIN_ROLE)
      else pure_step (Inr role))"

text \<open>\<open>grantRole(symbol, role, account)\<close>: the block number of the receipt, or the error.\<close>

definition grantRole :: "contract_client \<Rightarrow> token_table \<Rightarrow> string \<Rightarrow> string \<Rightarrow> string
    \<Rightarrow> contract_call list \<Rightarrow> (error + nat) \<times> contract_call list" where
  "grantRole cl tokens_table symbol role account =
     and_then (pure_step (case tokens_table symbol of
                 None \<Rightarrow> Inl (Error (''Token '' @ symbol @ '' not found''))
               | Some tokenData \<Rightarrow> Inr tokenData))
       (\<lambda>tokenData.
     and_then (role_switch cl (td_address tokenData) role)
       (\<lambda>roleHash.
     and_then (ask (GrantRole (td_address tokenData) roleHash account)
                 (\<lambda>hist. grantRole_answer cl hist (td_address tokenData) roleHash account))
       (\<lambda>tx.
     ask (WaitGrant tx) (\<lambda>hist. waitGrant_answer cl hist tx))))"

section \<open>Concrete runs\<close>

text \<open>Endpoints and environments for concrete runs.\<close>

definition pending_response :: http_result where
  "pending_response = Response ''0'' ''Pending in queue''"

definition ep_pending_twice :: endpoint where
  "ep_pending_twice i = (if i < 2 then pending_response else Response ''1'' ''Pass - Verified'')"

definition ep_always_pending :: endpoint where
  "ep_always_pending i = pending_response"

definition ep_always_throws :: endpoint where
  "ep_always_throws i = Threw ''Network Error''"

definition ep_throw_then_fail :: endpoint where
  "ep_throw_then_fail i = (if i < 1 then Threw ''Network Error''
     else Response ''0'' ''Fail - Unable to verify'')"

definition env_with :: "endpoint \<Rightarrow> verifier_env" where
  "env_with ep = \<lparr>loadContractSource = Inr ''contract ERC20Token {}'',
     encodeConstructorArgs = Inr ''00'', submit = Response ''1'' ''guid1'',
     status_endpoint = (\<lambda>guid. ep)\<rparr>"

text \<open>Three tokens, and a chain client on which the deployment of the second fails.\<close>

definition tokenA :: token where
  "tokenA = \<lparr>t_name = ''Alpha'', t_symbol = ''AAA'', t_decimals = 18, t_initialSupply = ''1000'',
     t_mintable = Some True, t_burnable = None, t_pausable = None,
     t_initialHolders = Some [\<lparr>h_address = ''0x01'', h_amount = ''0.5''\<rparr>]\<rparr>"

definition tokenB :: token where
  "tokenB = \<lparr>t_name = ''Beta'', t_symbol = ''BBB'', t_decimals = 6, t_initialSupply = ''5'',
     t_mintable = None, t_burnable = None, t_pausable = None, t_initialHolders = None\<rparr>"

definition tokenC :: token where
  "tokenC = \<lparr>t_name = ''Gamma'', t_symbol = ''CCC'', t_decimals = 0, t_initialSupply = ''7'',
     t_mintable = None, t_burnable = Some True, t_pausable = None, t_initialHolders = Some []\<rparr>"

definition chain_B_fails :: chain where
  "chain_B_fails = \<lparr>
     estimateGas_answer = (\<lambda>hist args. Inr 1000001),
     deploy_answer = (\<lambda>hist args gas. if ca_symbol args = ''BBB''
        then Inl (Error ''insufficient funds'') else Inr (''0xtx'' @ ca_symbol args)),
     waitForDeployment_answer = (\<lambda>hist tx. Inr ()),
     getAddress_answer = (\<lambda>hist tx. Inr (''0xaddr'' @ drop 4 tx)),
     wait_answer = (\<lambda>hist tx. Inr \<lparr>blockNumber = 101 + length hist, gasUsed = 900000\<rparr>),
     transfer_answer = (\<lambda>hist c to amount. Inr ''0xtransfer''),
     waitTransfer_answer = (\<lambda>hist tx. Inr ())\<rparr>"

definition world_with :: "bool option \<Rightarrow> world" where
  "world_with cont = \<lparr>
     networkInfo_name = Inr ''sepolia'',
     config_source = ConfigFile \<lparr>network = None, continueOnError = cont,
        tokens = [tokenA, tokenB, tokenC]\<rparr>,
     isAddress = (\<lambda>a. True),
     compile = Compiled ''[]'',
     chain_client = chain_B_fails,
     wallet_address = ''0xdeployer'',
     now_file = ''2024-01-02T03:04:05.678Z'',
     now_report = ''2024-01-02T03:04:05.679Z'',
     writable = (\<lambda>p. True)\<rparr>"

definition state0 :: state where
  "state0 = \<lparr>deployments = [], calls = [], files = Map.empty\<rparr>"


text \<open>The state after \<open>compileContract\<close> has written the ABI file.\<close>

definition state_c :: state where
  "state_c = state0\<lparr>files := [abiPath \<mapsto> ''[]'']\<rparr>"

text \<open>A chain client on which every transfer reverts.\<close>

definition chain_transfer_fails :: chain where
  "chain_transfer_fails = chain_B_fails\<lparr>transfer_answer :=
     (\<lambda>hist c to amount. Inl (Error ''transfer reverted''))\<rparr>"

text \<open>A chain client on which the deployment transaction is never confirmed.\<close>

definition chain_unconfirmed :: chain where
  "chain_unconfirmed = chain_B_fails\<lparr>waitForDeployment_answer :=
     (\<lambda>hist tx. Inl (Error ''transaction was not mined''))\<rparr>"

text \<open>A run in which no token is deployed, over an address map of an earlier run.\<close>

definition world_only_B :: world where
  "world_only_B = (world_with None)\<lparr>config_source :=
     ConfigFile \<lparr>network = None, continueOnError = Some True, tokens = [tokenB]\<rparr>\<rparr>"

definition state_prev :: state where
  "state_prev = \<lparr>deployments = [], calls = [],
     files = [addressPath \<mapsto> ''{ old }'']\<rparr>"

definition state_A :: state where
  "state_A = snd (deployToken chain_B_fails tokenA state_c)"

definition state_B :: state where
  "state_B = snd (deployToken chain_B_fails tokenB state_A)"

definition state_C :: state where
  "state_C = snd (deployToken chain_B_fails tokenC state_B)"

definition record_A :: deployment where
  "record_A = \<lparr>d_name = ''Alpha'', d_symbol = ''AAA'', d_address = ''0xaddrAAA'',
      d_decimals = 18, d_initialSupply = ''1000'', d_mintable = True,
      d_burnable = False, d_pausable = False, d_deploymentTx = ''0xtxAAA'',
      d_blockNumber = 104, d_gasUsed = ''900000''\<rparr>"

text \<open>A deployed token, and a contract that answers every request.\<close>

definition table0 :: token_table where
  "table0 = [''MTK'' \<mapsto> \<lparr>td_address = ''0xaddrMTK'', td_decimals = 18\<rparr>]"

definition client0 :: contract_client where
  "client0 = \<lparr>
     role_answer = (\<lambda>hist address f.
        Inr (case f of MINTER_ROLE \<Rightarrow> ''0x9f2df0fe'' | PAUSER_ROLE \<Rightarrow> ''0x65d7a28e''
             | DEFAULT_ADMIN_ROLE \<Rightarrow> ''0x00000000'')),
     grantRole_answer = (\<lambda>hist address roleHash account. Inr ''0xtxgrant''),
     waitGrant_answer = (\<lambda>hist tx. Inr 200)\<rparr>"

text \<open>The record of a token whose symbol is \<open>__proto__\<close>.\<close>

definition record_proto :: deployment where
  "record_proto = record_A\<lparr>d_symbol := ''__proto__''\<rparr>"

section \<open>Notions used in the statements\<close>

text \<open>Steps that only add requests of a given kind to the log.\<close>

definition adds :: "(call \<Rightarrow> bool) \<Rightarrow> (state \<Rightarrow> (error + 'a) \<times> state) \<Rightarrow> bool" where
  "adds P m = (\<forall>s. \<exists>new. calls (snd (m s)) = calls s @ new \<and> list_all P new)"

text \<open>
  The requests that follow the submission of the deployment transaction: waiting, and one
  transfer per holder, whose amount is the holder's amount scaled by \<open>parseUnits\<close>.
\<close>

definition after_deploy :: "token \<Rightarrow> call \<Rightarrow> bool" where
  "after_deploy token c =
     (case c of
        EstimateGas a \<Rightarrow> False
      | Deploy a g \<Rightarrow> False
      | WaitForDeployment tx \<Rightarrow> True
      | GetAddress tx \<Rightarrow> True
      | WaitDeploymentTx tx \<Rightarrow> True
      | Transfer contract to amount \<Rightarrow>
          (\<exists>h \<in> set (holders_of token). to = h_address h
             \<and> parseUnits (h_amount h) (t_decimals token) = Inr amount)
      | WaitTransfer tx \<Rightarrow> True)"

text \<open>
  The gas limit that the spec describes for a deployment: the chain client's estimate for
  the constructor call with its margin of 20 percent, or the default when the chain
  client refuses to estimate.
\<close>

definition claimed_gas_limit :: "chain \<Rightarrow> call list \<Rightarrow> ctor_args \<Rightarrow> nat" where
  "claimed_gas_limit ch hist args =
     (case estimateGas_answer ch hist args of
        Inr estimatedGas \<Rightarrow> estimatedGas * 120 div 100
      | Inl err \<Rightarrow> 3000000)"

text \<open>
  The requests that a step makes when it is run in state \<open>s\<close>: what it adds to the log.
\<close>

definition requests :: "(state \<Rightarrow> (error + 'a) \<times> state) \<Rightarrow> state \<Rightarrow> call list" where
  "requests m s = drop (length (calls s)) (calls (snd (m s)))"

text \<open>
  A request that the chain client answers with an error, when it is made after the
  requests \<open>hist\<close>; and a sequence of requests, made one after the other, of which one
  is answered with an error: a failed step.
\<close>

definition refused :: "chain \<Rightarrow> call list \<Rightarrow> call \<Rightarrow> bool" where
  "refused ch hist c =
     (case c of
        EstimateGas a \<Rightarrow> isl (estimateGas_answer ch hist a)
      | Deploy a g \<Rightarrow> isl (deploy_answer ch hist a g)
      | WaitForDeployment tx \<Rightarrow> isl (waitForDeployment_answer ch hist tx)
      | GetAddress tx \<Rightarrow> isl (getAddress_answer ch hist tx)
      | WaitDeploymentTx tx \<Rightarrow> isl (wait_answer ch hist tx)
      | Transfer contract to amount \<Rightarrow> isl (transfer_answer ch hist contract to amount)
      | WaitTransfer tx \<Rightarrow> isl (waitTransfer_answer ch hist tx))"

fun step_fails :: "chain \<Rightarrow> call list \<Rightarrow> call list \<Rightarrow> bool" where
  "step_fails ch hist [] = False"
| "step_fails ch hist (c # cs) = (refused ch hist c \<or> step_fails ch (hist @ [c]) cs)"

text \<open>The transfers among a sequence of requests: recipient and amount, in order.\<close>

fun transfers :: "call list \<Rightarrow> (string \<times> nat) list" where
  "transfers [] = []"
| "transfers (Transfer contract to amount # cs) = (to, amount) # transfers cs"
| "transfers (c # cs) = transfers cs"

text \<open>
  The strings of a token definition that \<open>parseUnits\<close> is given: the supply and the
  amounts of the holders. They are accepted when none makes it throw.
\<close>

definition strings_accepted :: "token \<Rightarrow> bool" where
  "strings_accepted token =
     (\<not> isl (parseUnits (t_initialSupply token) (t_decimals token))
      \<and> list_all (\<lambda>h. \<not> isl (parseUnits (h_amount h) (t_decimals token))) (holders_of token))"

text \<open>
  A step that throws when one of its requests is answered with an error and, with the
  strings accepted, only then.
\<close>

definition faithful :: "chain \<Rightarrow> bool \<Rightarrow> (state \<Rightarrow> (error + 'a) \<times> state) \<Rightarrow> bool" where
  "faithful ch accepted m =
     (\<forall>s. \<exists>new. calls (snd (m s)) = calls s @ new
        \<and> (step_fails ch (calls s) new \<longrightarrow> isl (fst (m s)))
        \<and> (accepted \<and> isl (fst (m s)) \<longrightarrow> step_fails ch (calls s) new))"

text \<open>
  What the spec means by a non-negative decimal string, its number of fractional digits,
  and the rational number it denotes.
\<close>

definition is_decimal :: "string \<Rightarrow> bool" where
  "is_decimal v =
     (let whole = takeWhile is_digit v; rest = dropWhile is_digit v
      in if rest = [] then whole \<noteq> []
         else hd rest = CHR ''.'' \<and> list_all is_digit (tl rest) \<and> (whole \<noteq> [] \<or> tl rest \<noteq> []))"

definition fraction_digits :: "string \<Rightarrow> nat" where
  "fraction_digits v = length (tl (dropWhile is_digit v))"

definition decimal_value :: "string \<Rightarrow> rat" where
  "decimal_value v =
     of_nat (digits_val (takeWhile is_digit v))
     + of_nat (digits_val (tl (dropWhile is_digit v))) / 10 ^ fraction_digits v"

text \<open>A transfer request whose amount is a holder's amount times \<open>10^decimals\<close>, exactly.\<close>

definition exact_transfer :: "token \<Rightarrow> call \<Rightarrow> bool" where
  "exact_transfer token c =
     (case c of
        Transfer contract to amount \<Rightarrow>
          (\<exists>h \<in> set (holders_of token). to = h_address h
             \<and> of_nat amount = decimal_value (h_amount h) * 10 ^ nat (t_decimals token))
      | EstimateGas a \<Rightarrow> False
      | Deploy a g \<Rightarrow> False
      | WaitForDeployment tx \<Rightarrow> True
      | GetAddress tx \<Rightarrow> True
      | WaitDeploymentTx tx \<Rightarrow> True
      | WaitTransfer tx \<Rightarrow> True)"

text \<open>
  A holder whose amount is a non-negative decimal string with at most \<open>d\<close> fractional
  digits; and a transfer (recipient and amount) that sends a holder the holder's amount
  times \<open>10^d\<close>, exactly.
\<close>

definition valid_amount :: "nat \<Rightarrow> holder \<Rightarrow> bool" where
  "valid_amount d h = (is_decimal (h_amount h) \<and> fraction_digits (h_amount h) \<le> d)"

definition holder_transfer :: "nat \<Rightarrow> holder \<Rightarrow> string \<times> nat \<Rightarrow> bool" where
  "holder_transfer d h p =
     (fst p = h_address h \<and> of_nat (snd p) = decimal_value (h_amount h) * 10 ^ d)"

text \<open>The role function that the \<open>switch\<close> selects for a role string, if any.\<close>

definition selected_function :: "string \<Rightarrow> role_function option" where
  "selected_function role =
     (if toUpperCase role = ''MINTER'' then Some MINTER_ROLE
      else if toUpperCase role = ''PAUSER'' then Some PAUSER_ROLE
      else if toUpperCase role = ''ADMIN'' then Some DEFAULT_ADMIN_ROLE
      else None)"

text \<open>What may follow a number in a text: anything that does not continue it.\<close>

definition number_stop :: "string \<Rightarrow> bool" where
  "number_stop rest =
     (case rest of [] \<Rightarrow> True
      | c # r \<Rightarrow> \<not> is_digit c \<and> c \<noteq> CHR ''.'' \<and> c \<noteq> CHR ''e'' \<and> c \<noteq> CHR ''E'')"

text \<open>
  The values that come back from the text as they went in: in every object the keys are
  distinct and none is an array index, so that the properties are created in the order of
  the text.
\<close>

fun plain :: "jsval \<Rightarrow> bool" where
  "plain (JArr vs) = (\<forall>v \<in> set vs. plain v)"
| "plain (JObj ps) =
     (distinct (map fst ps) \<and> (\<forall>p \<in> set ps. \<not> is_array_index (fst p) \<and> plain (snd p)))"
| "plain v = True"

text \<open>A bound on the nesting of calls that parsing the text of a value takes.\<close>

fun need :: "jsval \<Rightarrow> nat" where
  "need (JArr vs) = 1 + sum_list (map (\<lambda>v. 1 + need v) vs)"
| "need (JObj ps) = 1 + sum_list (map (\<lambda>p. 1 + need (snd p)) ps)"
| "need v = 1"

section \<open>Properties of the verification agent\<close>

lemmas cvs_simps = checkVerificationStatus_from.simps

declare checkVerificationStatus_from.simps [simp del]

lemma cvs_from_exhausted:
  "attempts \<le> i \<Longrightarrow> checkVerificationStatus_from ep attempts i = (timeout_status, i)"
  by (subst cvs_simps) (simp add: timeout_status_def)

lemma cvs_from_continue:
  "i < attempts \<Longrightarrow> continues (ep i) \<Longrightarrow>
   checkVerificationStatus_from ep attempts i = checkVerificationStatus_from ep attempts (Suc i)"
  by (subst cvs_simps)
     (auto simp: continues_def is_pending_def is_threw_def split: http_result.splits)

lemma cvs_from_stop:
  "i < attempts \<Longrightarrow> \<not> continues (ep i) \<Longrightarrow>
   checkVerificationStatus_from ep attempts i = (terminal_status (ep i), Suc i)"
  by (subst cvs_simps)
     (auto simp: continues_def is_pending_def is_threw_def terminal_status_def
           split: http_result.splits)

lemma cvs_from_all_continue:
  "i \<le> attempts \<Longrightarrow> \<forall>j. i \<le> j \<and> j < attempts \<longrightarrow> continues (ep j) \<Longrightarrow>
   checkVerificationStatus_from ep attempts i = (timeout_status, attempts)"
proof (induction "attempts - i" arbitrary: i)
  case 0
  then have "i = attempts" by simp
  then show ?case by (simp add: cvs_from_exhausted)
next
  case (Suc k)
  then have lt: "i < attempts" by simp
  with Suc.prems have "continues (ep i)" by simp
  with lt have "checkVerificationStatus_from ep attempts i
      = checkVerificationStatus_from ep attempts (Suc i)"
    by (rule cvs_from_continue)
  also have "\<dots> = (timeout_status, attempts)"
    using Suc.hyps(1) [of "Suc i"] Suc.hyps(2) Suc.prems lt by simp
  finally show ?case .
qed

lemma cvs_from_first_stop:
  "i \<le> n \<Longrightarrow> n < attempts \<Longrightarrow> \<forall>j. i \<le> j \<and> j < n \<longrightarrow> continues (ep j) \<Longrightarrow>
   \<not> continues (ep n) \<Longrightarrow>
   checkVerificationStatus_from ep attempts i = (terminal_status (ep n), Suc n)"
proof (induction "n - i" arbitrary: i)
  case 0
  then have "i = n" by simp
  with 0 show ?case by (simp add: cvs_from_stop)
next
  case (Suc k)
  then have lt: "i < n" by simp
  with Suc.prems have c: "continues (ep i)" and lt': "i < attempts" by simp_all
  from lt' c have "checkVerificationStatus_from ep attempts i
      = checkVerificationStatus_from ep attempts (Suc i)"
    by (rule cvs_from_continue)
  also have "\<dots> = (terminal_status (ep n), Suc n)"
    using Suc.hyps(1) [of "Suc i"] Suc.hyps(2) Suc.prems lt by simp
  finally show ?case .
qed


text \<open>
  The loop as a whole: it stops at the first request whose outcome does not continue,
  and runs out of attempts when there is none.
\<close>

lemma cvs_first_stop:
  assumes "n < attempts" "\<forall>j<n. continues (ep j)" "\<not> continues (ep n)"
  shows "checkVerificationStatus ep attempts = (terminal_status (ep n), Suc n)"
  unfolding checkVerificationStatus_def
  using assms by (intro cvs_from_first_stop) simp_all

lemma cvs_all_continue:
  assumes "\<forall>j<attempts. continues (ep j)"
  shows "checkVerificationStatus ep attempts = (timeout_status, attempts)"
  unfolding checkVerificationStatus_def
  using assms by (intro cvs_from_all_continue) simp_all

lemma cvs_skip_prefix:
  assumes "n \<le> attempts" "\<forall>j<n. continues (ep j)"
  shows "checkVerificationStatus ep attempts = checkVerificationStatus_from ep attempts n"
  using assms
proof (induction n)
  case 0
  show ?case by (simp add: checkVerificationStatus_def)
next
  case (Suc n)
  then have "checkVerificationStatus ep attempts = checkVerificationStatus_from ep attempts n"
    by simp
  also have "\<dots> = checkVerificationStatus_from ep attempts (Suc n)"
    using Suc.prems by (intro cvs_from_continue) simp_all
  finally show ?case .
qed

lemma verifyContract_submitted:
  assumes "loadContractSource env = Inr src" "encodeConstructorArgs env = Inr args"
    "submit env = Response ''1'' guid"
  shows "verifyContract env =
     (success (fst (checkVerificationStatus (status_endpoint env guid) default_attempts)),
      snd (checkVerificationStatus (status_endpoint env guid) default_attempts))"
  using assms by (simp add: verifyContract_def split: prod.splits)

text \<open>
  C6. With the submission accepted: a status endpoint that answers "pending" twice and
  then success makes \<open>verifyContract\<close> return success after exactly 3 status requests;
  one that answers "pending" every time makes it return failure, with the timeout message,
  after the 30 requests of the attempt ceiling; and among the responses (requests that
  resolved with a body) the pending one is the only one after which the loop goes on: any
  other response ends it at that request.
\<close>

theorem verifyContract_polling:
  assumes "loadContractSource env = Inr src" "encodeConstructorArgs env = Inr args"
    "submit env = Response ''1'' guid" "status_endpoint env guid = ep"
  shows "(is_pending (ep 0) \<and> is_pending (ep 1) \<and> is_success (ep 2)
            \<longrightarrow> verifyContract env = (True, 3))
       \<and> ((\<forall>i. is_pending (ep i))
            \<longrightarrow> verifyContract env = (False, 30)
              \<and> checkVerificationStatus ep default_attempts = (timeout_status, 30))
       \<and> (\<forall>n st res. n < default_attempts \<and> (\<forall>j<n. continues (ep j)) \<and> ep n = Response st res
            \<longrightarrow> (if is_pending (ep n)
                 then checkVerificationStatus ep default_attempts
                      = checkVerificationStatus_from ep default_attempts (Suc n)
                 else checkVerificationStatus ep default_attempts
                      = (terminal_status (ep n), Suc n)))"
proof (intro conjI impI allI)
  assume a: "is_pending (ep 0) \<and> is_pending (ep 1) \<and> is_success (ep 2)"
  have "\<forall>j<2. continues (ep j)"
    using a by (auto simp: continues_def less_Suc_eq numeral_2_eq_2)
  moreover have "\<not> continues (ep 2)"
    using a by (auto simp: continues_def is_pending_def is_success_def is_threw_def
        split: http_result.splits)
  ultimately have "checkVerificationStatus ep default_attempts = (terminal_status (ep 2), Suc 2)"
    by (intro cvs_first_stop) (simp_all add: default_attempts_def)
  moreover have "success (terminal_status (ep 2))"
    using a by (auto simp: terminal_status_def is_success_def split: http_result.splits)
  ultimately show "verifyContract env = (True, 3)"
    using verifyContract_submitted [OF assms(1-3)] assms(4) by simp
next
  assume a: "\<forall>i. is_pending (ep i)"
  then have "\<forall>j<default_attempts. continues (ep j)"
    by (simp add: continues_def)
  then have t: "checkVerificationStatus ep default_attempts = (timeout_status, default_attempts)"
    by (rule cvs_all_continue)
  then show "checkVerificationStatus ep default_attempts = (timeout_status, 30)"
    by (simp add: default_attempts_def)
  from t show "verifyContract env = (False, 30)"
    using verifyContract_submitted [OF assms(1-3)] assms(4)
    by (simp add: timeout_status_def default_attempts_def)
next
  fix n st res
  assume a: "n < default_attempts \<and> (\<forall>j<n. continues (ep j)) \<and> ep n = Response st res"
  show "if is_pending (ep n)
        then checkVerificationStatus ep default_attempts
             = checkVerificationStatus_from ep default_attempts (Suc n)
        else checkVerificationStatus ep default_attempts = (terminal_status (ep n), Suc n)"
  proof (cases "is_pending (ep n)")
    case True
    with a have "\<forall>j<Suc n. continues (ep j)"
      by (auto simp: less_Suc_eq continues_def)
    moreover from a have "Suc n \<le> default_attempts"
      by simp
    ultimately have "checkVerificationStatus ep default_attempts
        = checkVerificationStatus_from ep default_attempts (Suc n)"
      by (intro cvs_skip_prefix)
    with True show ?thesis
      by simp
  next
    case False
    from a have n: "n < default_attempts" "\<forall>j<n. continues (ep j)"
      by simp_all
    from a False have "\<not> continues (ep n)"
      by (simp add: continues_def is_threw_def)
    with n have "checkVerificationStatus ep default_attempts = (terminal_status (ep n), Suc n)"
      by (rule cvs_first_stop)
    with False show ?thesis
      by simp
  qed
qed

theorem verifyContract_polling_witness:
  "verifyContract (env_with ep_pending_twice) = (True, 3)
   \<and> verifyContract (env_with ep_always_pending) = (False, 30)
   \<and> checkVerificationStatus ep_pending_twice default_attempts
       = checkVerificationStatus_from ep_pending_twice default_attempts 2
   \<and> checkVerificationStatus ep_throw_then_fail default_attempts
       = (\<lparr>success = False, message = ''Fail - Unable to verify''\<rparr>, 2)"
proof -
  have e: "loadContractSource (env_with ep) = Inr ''contract ERC20Token {}''"
    "encodeConstructorArgs (env_with ep) = Inr ''00''"
    "submit (env_with ep) = Response ''1'' ''guid1''"
    "status_endpoint (env_with ep) ''guid1'' = ep" for ep
    by (simp_all add: env_with_def)
  note t1 = verifyContract_polling [OF e, of ep_pending_twice]
  note t2 = verifyContract_polling [OF e, of ep_always_pending]
  note t3 = verifyContract_polling [OF e, of ep_throw_then_fail]
  have p: "is_pending pending_response"
    by (simp add: is_pending_def pending_response_def)
  have "verifyContract (env_with ep_pending_twice) = (True, 3)"
    using t1 p by (simp add: ep_pending_twice_def is_success_def)
  moreover have "verifyContract (env_with ep_always_pending) = (False, 30)"
    using t2 p by (simp add: ep_always_pending_def)
  moreover have "checkVerificationStatus ep_pending_twice default_attempts
       = checkVerificationStatus_from ep_pending_twice default_attempts 2"
  proof -
    have "1 < default_attempts \<and> (\<forall>j<1. continues (ep_pending_twice j))
        \<and> ep_pending_twice 1 = Response ''0'' ''Pending in queue''"
      using p by (simp add: default_attempts_def ep_pending_twice_def continues_def
          pending_response_def)
    moreover have "is_pending (ep_pending_twice 1)"
      using p by (simp add: ep_pending_twice_def)
    ultimately show ?thesis
      using t1 by (metis Suc_1)
  qed
  moreover have "checkVerificationStatus ep_throw_then_fail default_attempts
       = (\<lparr>success = False, message = ''Fail - Unable to verify''\<rparr>, 2)"
  proof -
    have "1 < default_attempts \<and> (\<forall>j<1. continues (ep_throw_then_fail j))
        \<and> ep_throw_then_fail 1 = Response ''0'' ''Fail - Unable to verify''"
      by (simp add: default_attempts_def ep_throw_then_fail_def continues_def is_threw_def)
    moreover have "\<not> is_pending (ep_throw_then_fail 1)"
      by (simp add: ep_throw_then_fail_def is_pending_def)
    moreover have "terminal_status (ep_throw_then_fail 1)
        = \<lparr>success = False, message = ''Fail - Unable to verify''\<rparr>"
      by (simp add: ep_throw_then_fail_def terminal_status_def)
    ultimately show ?thesis
      using t3 by (metis Suc_1)
  qed
  ultimately show ?thesis by simp
qed


lemma not_continues_cases:
  "\<not> continues r \<Longrightarrow> is_success r \<or> is_failure r"
  by (auto simp: continues_def is_pending_def is_threw_def is_success_def is_failure_def
      split: http_result.splits)

lemma cvs_three_ways:
  "(\<exists>n<attempts. (\<forall>j<n. continues (ep j)) \<and> \<not> continues (ep n)
       \<and> checkVerificationStatus ep attempts = (terminal_status (ep n), Suc n))
   \<or> ((\<forall>j<attempts. continues (ep j))
       \<and> checkVerificationStatus ep attempts = (timeout_status, attempts))"
proof (cases "\<exists>n<attempts. \<not> continues (ep n)")
  case True
  define n where "n = (LEAST n. n < attempts \<and> \<not> continues (ep n))"
  from True have n: "n < attempts \<and> \<not> continues (ep n)"
    unfolding n_def by (metis (mono_tags, lifting) LeastI)
  have before: "\<forall>j<n. continues (ep j)"
  proof (intro allI impI)
    fix j assume "j < n"
    then have "\<not> (j < attempts \<and> \<not> continues (ep j))"
      unfolding n_def by (rule not_less_Least)
    with \<open>j < n\<close> n show "continues (ep j)" by simp
  qed
  with n have "checkVerificationStatus ep attempts = (terminal_status (ep n), Suc n)"
    by (intro cvs_first_stop) simp_all
  with n before show ?thesis by blast
next
  case False
  then have all: "\<forall>j<attempts. continues (ep j)" by blast
  then have "checkVerificationStatus ep attempts = (timeout_status, attempts)"
    by (rule cvs_all_continue)
  with all show ?thesis by blast
qed

text \<open>
  C9. An exception thrown by the status request is not terminal: when request number \<open>n\<close>
  is reached and throws, the loop goes on with counter \<open>n + 1\<close> under the same ceiling, so
  the exception has used up one attempt. The loop ends in one of three ways only: at the
  first success response, at the first response that is neither success nor pending (with
  that response's result as the message), or with the timeout message after as many
  requests as the ceiling allows, every one of them pending or thrown. With the ceiling of
  30, an endpoint that throws every time gives the timeout after exactly 30 requests.
\<close>

theorem status_exception_not_terminal:
  "(n < attempts \<and> (\<forall>j<n. continues (ep j)) \<and> ep n = Threw err
      \<longrightarrow> checkVerificationStatus ep attempts = checkVerificationStatus_from ep attempts (Suc n))
   \<and> ((\<exists>k<attempts. (\<forall>j<k. continues (ep j)) \<and> is_success (ep k)
          \<and> checkVerificationStatus ep attempts
              = (\<lparr>success = True, message = ''Verified''\<rparr>, Suc k))
      \<or> (\<exists>k<attempts. \<exists>st res. (\<forall>j<k. continues (ep j)) \<and> ep k = Response st res
          \<and> is_failure (ep k)
          \<and> checkVerificationStatus ep attempts = (\<lparr>success = False, message = res\<rparr>, Suc k))
      \<or> ((\<forall>j<attempts. continues (ep j))
          \<and> checkVerificationStatus ep attempts
              = (\<lparr>success = False, message = ''Verification timeout''\<rparr>, attempts)))
   \<and> snd (checkVerificationStatus ep attempts) \<le> attempts
   \<and> ((\<forall>i. is_threw (ep i))
      \<longrightarrow> checkVerificationStatus ep default_attempts
          = (\<lparr>success = False, message = ''Verification timeout''\<rparr>, 30))"
proof (intro conjI impI)
  assume a: "n < attempts \<and> (\<forall>j<n. continues (ep j)) \<and> ep n = Threw err"
  then have "\<forall>j<Suc n. continues (ep j)"
    by (auto simp: less_Suc_eq continues_def is_threw_def)
  moreover from a have "Suc n \<le> attempts" by simp
  ultimately show "checkVerificationStatus ep attempts
      = checkVerificationStatus_from ep attempts (Suc n)"
    by (intro cvs_skip_prefix)
next
  let ?A = "\<exists>k<attempts. (\<forall>j<k. continues (ep j)) \<and> is_success (ep k)
          \<and> checkVerificationStatus ep attempts
              = (\<lparr>success = True, message = ''Verified''\<rparr>, Suc k)"
  let ?B = "\<exists>k<attempts. \<exists>st res. (\<forall>j<k. continues (ep j)) \<and> ep k = Response st res
          \<and> is_failure (ep k)
          \<and> checkVerificationStatus ep attempts = (\<lparr>success = False, message = res\<rparr>, Suc k)"
  let ?C = "(\<forall>j<attempts. continues (ep j))
          \<and> checkVerificationStatus ep attempts
              = (\<lparr>success = False, message = ''Verification timeout''\<rparr>, attempts)"
  from cvs_three_ways [of attempts ep] show "?A \<or> ?B \<or> ?C"
  proof
    assume "\<exists>k<attempts. (\<forall>j<k. continues (ep j)) \<and> \<not> continues (ep k)
       \<and> checkVerificationStatus ep attempts = (terminal_status (ep k), Suc k)"
    then obtain k where k: "k < attempts" "\<forall>j<k. continues (ep j)" "\<not> continues (ep k)"
      "checkVerificationStatus ep attempts = (terminal_status (ep k), Suc k)"
      by blast
    from k(3) have "is_success (ep k) \<or> is_failure (ep k)"
      by (rule not_continues_cases)
    then show ?thesis
    proof
      assume s: "is_success (ep k)"
      then have "terminal_status (ep k) = \<lparr>success = True, message = ''Verified''\<rparr>"
        by (auto simp: is_success_def terminal_status_def split: http_result.splits)
      with k s have ?A by auto
      then show ?thesis by blast
    next
      assume f: "is_failure (ep k)"
      then obtain st res where r: "ep k = Response st res" "st \<noteq> ''1''"
        by (auto simp: is_failure_def split: http_result.splits)
      then have "terminal_status (ep k) = \<lparr>success = False, message = res\<rparr>"
        by (simp add: terminal_status_def)
      with k f r have ?B by auto
      then show ?thesis by blast
    qed
  next
    assume "(\<forall>j<attempts. continues (ep j))
       \<and> checkVerificationStatus ep attempts = (timeout_status, attempts)"
    then have ?C by (simp add: timeout_status_def)
    then show ?thesis by blast
  qed
next
  from cvs_three_ways [of attempts ep]
  show "snd (checkVerificationStatus ep attempts) \<le> attempts"
    by auto
next
  assume "\<forall>i. is_threw (ep i)"
  then have "\<forall>j<default_attempts. continues (ep j)"
    by (simp add: continues_def)
  then have "checkVerificationStatus ep default_attempts = (timeout_status, default_attempts)"
    by (rule cvs_all_continue)
  then show "checkVerificationStatus ep default_attempts
      = (\<lparr>success = False, message = ''Verification timeout''\<rparr>, 30)"
    by (simp add: timeout_status_def default_attempts_def)
qed

theorem status_exception_not_terminal_witness:
  "checkVerificationStatus ep_throw_then_fail 30
     = checkVerificationStatus_from ep_throw_then_fail 30 1
   \<and> checkVerificationStatus ep_throw_then_fail 30
     = (\<lparr>success = False, message = ''Fail - Unable to verify''\<rparr>, 2)
   \<and> checkVerificationStatus ep_always_throws default_attempts
     = (\<lparr>success = False, message = ''Verification timeout''\<rparr>, 30)"
proof -
  note t1 = status_exception_not_terminal
    [of 0 30 ep_throw_then_fail "''Network Error''"]
  note t2 = status_exception_not_terminal [of 0 30 ep_always_throws "''Network Error''"]
  have a: "checkVerificationStatus ep_throw_then_fail 30
     = checkVerificationStatus_from ep_throw_then_fail 30 1"
    using t1 by (simp add: ep_throw_then_fail_def)
  have "checkVerificationStatus_from ep_throw_then_fail 30 1
     = (\<lparr>success = False, message = ''Fail - Unable to verify''\<rparr>, 2)"
    by (subst cvs_simps) (simp add: ep_throw_then_fail_def)
  with a have b: "checkVerificationStatus ep_throw_then_fail 30
     = (\<lparr>success = False, message = ''Fail - Unable to verify''\<rparr>, 2)"
    by simp
  have c: "checkVerificationStatus ep_always_throws default_attempts
     = (\<lparr>success = False, message = ''Verification timeout''\<rparr>, 30)"
    using t2 by (simp add: ep_always_throws_def is_threw_def)
  from a b c show ?thesis by simp
qed

section \<open>Properties of the deployment script\<close>

subsection \<open>Sequencing, and what each step leaves untouched\<close>

lemma request_simps [simp]:
  "fst (request c answer s) = answer (calls s)"
  "deployments (snd (request c answer s)) = deployments s"
  "files (snd (request c answer s)) = files s"
  "calls (snd (request c answer s)) = calls s @ [c]"
  by (simp_all add: request_def)

lemma pure_step_simps [simp]:
  "fst (pure_step r s) = r" "snd (pure_step r s) = s"
  by (simp_all add: pure_step_def)

lemma and_then_Inl:
  "fst (m s) = Inl e \<Longrightarrow> and_then m k s = (Inl e, snd (m s))"
  by (cases "m s") (simp add: and_then_def)

lemma and_then_Inr:
  "fst (m s) = Inr x \<Longrightarrow> and_then m k s = k x (snd (m s))"
  by (cases "m s") (simp add: and_then_def)

lemma and_then_cases:
  obtains (throws) e where "fst (m s) = Inl e" "and_then m k s = (Inl e, snd (m s))"
  | (returns) x where "fst (m s) = Inr x" "and_then m k s = k x (snd (m s))"
  by (cases "fst (m s)") (auto simp: and_then_Inl and_then_Inr)

text \<open>A step keeps a component of the state when it leaves it as it was, whatever it returns.\<close>

lemma and_then_keeps:
  assumes "\<And>s. f (snd (m s)) = f s" "\<And>x s. f (snd (k x s)) = f s"
  shows "f (snd (and_then m k s)) = f s"
  by (rule and_then_cases [of m s k]) (simp_all add: assms)

lemma and_then_keeps_on_error:
  assumes "\<And>s. f (snd (m s)) = f s"
    "\<And>x s e. fst (k x s) = Inl e \<Longrightarrow> f (snd (k x s)) = f s"
    "fst (and_then m k s) = Inl e"
  shows "f (snd (and_then m k s)) = f s"
proof (rule and_then_cases [of m s k])
  fix e' assume "fst (m s) = Inl e'" "and_then m k s = (Inl e', snd (m s))"
  then show ?thesis by (simp add: assms(1))
next
  fix x assume x: "fst (m s) = Inr x" "and_then m k s = k x (snd (m s))"
  with assms(3) have "fst (k x (snd (m s))) = Inl e" by simp
  then have "f (snd (k x (snd (m s)))) = f (snd (m s))" by (rule assms(2))
  with x show ?thesis by (simp add: assms(1))
qed

lemma estimateGas_result:
  "estimateGas token s =
     (case parseUnits (t_initialSupply token) (t_decimals token) of
        Inl e \<Rightarrow> (Inl e, s)
      | Inr w \<Rightarrow> (Inr 3000000, s))"
  by (simp add: estimateGas_def and_then_def pure_step_def getDeployTransaction_estimateGas_def
      split: sum.splits)

lemma estimateGas_keeps_state [simp]: "snd (estimateGas token s) = s"
  by (simp add: estimateGas_result split: sum.splits)

lemma transfer_to_keeps_deployments [simp]:
  "deployments (snd (transfer_to ch contract token h s)) = deployments s"
  unfolding transfer_to_def
  by (intro and_then_keeps) simp_all

lemma transfer_to_keeps_files [simp]:
  "files (snd (transfer_to ch contract token h s)) = files s"
  unfolding transfer_to_def
  by (intro and_then_keeps) simp_all

lemma distribute_loop_keeps_deployments [simp]:
  "deployments (snd (distribute_loop ch contract token hs s)) = deployments s"
proof (induction hs arbitrary: s)
  case Nil
  show ?case by simp
next
  case (Cons h hs)
  show ?case
  proof (cases "transfer_to ch contract token h s")
    case (Pair r s')
    then have "deployments s' = deployments s"
      using transfer_to_keeps_deployments [of ch contract token h s] by simp
    with Pair Cons.IH [of s'] show ?thesis
      by (cases r) simp_all
  qed
qed

lemma distribute_loop_keeps_files [simp]:
  "files (snd (distribute_loop ch contract token hs s)) = files s"
proof (induction hs arbitrary: s)
  case Nil
  show ?case by simp
next
  case (Cons h hs)
  show ?case
  proof (cases "transfer_to ch contract token h s")
    case (Pair r s')
    then have "files s' = files s"
      using transfer_to_keeps_files [of ch contract token h s] by simp
    with Pair Cons.IH [of s'] show ?thesis
      by (cases r) simp_all
  qed
qed

lemma distributeTokens_keeps [simp]:
  "deployments (snd (distributeTokens ch contract token s)) = deployments s"
  "files (snd (distributeTokens ch contract token s)) = files s"
  by (simp_all add: distributeTokens_def)

lemma deployToken_keeps_files [simp]:
  "files (snd (deployToken ch token s)) = files s"
  unfolding deployToken_def
  by (intro and_then_keeps) simp_all

lemma deployToken_error_keeps_deployments:
  "fst (deployToken ch token s) = Inl e \<Longrightarrow>
   deployments (snd (deployToken ch token s)) = deployments s"
  unfolding deployToken_def
  apply (erule and_then_keeps_on_error [rotated 2], simp)
  apply (erule and_then_keeps_on_error [rotated 2], simp)
  apply (erule and_then_keeps_on_error [rotated 2], simp)
  apply (erule and_then_keeps_on_error [rotated 2], simp)
  apply (erule and_then_keeps_on_error [rotated 2], simp)
  apply (erule and_then_keeps_on_error [rotated 2], simp)
  apply (erule and_then_keeps_on_error [rotated 2], simp)
  apply simp
  done


lemma and_then_eq_Inr:
  "and_then m k s = (Inr y, t) \<longleftrightarrow> (\<exists>x s'. m s = (Inr x, s') \<and> k x s' = (Inr y, t))"
  by (cases "m s") (auto simp: and_then_def split: sum.splits)

lemma deployToken_success:
  assumes "deployToken ch token s = (Inr a, t)"
  obtains w tx rcpt s6 where
    "parseUnits (t_initialSupply token) (t_decimals token) = Inr w"
    "deploy_answer ch (calls s) (constructor_args token w) 3000000 = Inr tx"
    "(if holders_of token \<noteq> [] then distributeTokens ch a token else pure_step (Inr ()))
       (s\<lparr>calls := calls s @ [Deploy (constructor_args token w) 3000000, WaitForDeployment tx,
           GetAddress tx, WaitDeploymentTx tx]\<rparr>) = (Inr (), s6)"
    "t = s6\<lparr>deployments := deployments s6 @ [deployment_record token a tx rcpt]\<rparr>"
  using assms unfolding deployToken_def
  by (auto simp: and_then_eq_Inr pure_step_def request_def estimateGas_result split: sum.splits)

lemma deployToken_success_appends:
  assumes "deployToken ch token s = (Inr a, t)"
  shows "\<exists>tx rcpt. deployments t = deployments s @ [deployment_record token a tx rcpt]"
proof -
  from assms obtain w tx rcpt s6 where
    d: "(if holders_of token \<noteq> [] then distributeTokens ch a token else pure_step (Inr ()))
       (s\<lparr>calls := calls s @ [Deploy (constructor_args token w) 3000000, WaitForDeployment tx,
           GetAddress tx, WaitDeploymentTx tx]\<rparr>) = (Inr (), s6)"
    and t: "t = s6\<lparr>deployments := deployments s6 @ [deployment_record token a tx rcpt]\<rparr>"
    by (rule deployToken_success)
  from d have "deployments s6 = deployments s"
    using distributeTokens_keeps(1) [of ch a token]
    by (auto simp: pure_step_def split: if_splits dest!: arg_cong [where f = "\<lambda>p. deployments (snd p)"])
  then show ?thesis using t by auto
qed

lemma adds_pure_step [simp]: "adds P (pure_step r)"
  by (simp add: adds_def)

lemma adds_request [simp]: "P c \<Longrightarrow> adds P (request c answer)"
  by (simp add: adds_def)

lemma adds_and_then:
  assumes "adds P m" "\<And>x. adds P (k x)"
  shows "adds P (and_then m k)"
  unfolding adds_def
proof
  fix s
  from assms(1) obtain n1 where n1: "calls (snd (m s)) = calls s @ n1" "list_all P n1"
    unfolding adds_def by blast
  show "\<exists>new. calls (snd (and_then m k s)) = calls s @ new \<and> list_all P new"
  proof (rule and_then_cases [of m s k])
    fix e assume "fst (m s) = Inl e" "and_then m k s = (Inl e, snd (m s))"
    with n1 show ?thesis by auto
  next
    fix x assume x: "fst (m s) = Inr x" "and_then m k s = k x (snd (m s))"
    from assms(2) [of x] obtain n2 where
      "calls (snd (k x (snd (m s)))) = calls (snd (m s)) @ n2" "list_all P n2"
      unfolding adds_def by blast
    with n1 x have "calls (snd (and_then m k s)) = calls s @ (n1 @ n2) \<and> list_all P (n1 @ n2)"
      by simp
    then show ?thesis by blast
  qed
qed

lemma adds_if [simp]: "adds P m \<Longrightarrow> adds P m' \<Longrightarrow> adds P (if b then m else m')"
  by simp

lemma adds_final [simp]: "adds P (\<lambda>s. (r, s\<lparr>deployments := ds s\<rparr>))"
  by (simp add: adds_def)


lemma distribute_loop_Cons:
  "distribute_loop ch contract token (h # hs)
     = and_then (transfer_to ch contract token h) (\<lambda>u. distribute_loop ch contract token hs)"
  by (rule ext) (simp add: and_then_def split: prod.splits sum.splits)

lemma adds_transfer_to:
  assumes "h \<in> set (holders_of token)"
  shows "adds (after_deploy token) (transfer_to ch contract token h)"
  unfolding transfer_to_def
proof (cases "parseUnits (h_amount h) (t_decimals token)")
  case (Inl e)
  then show "adds (after_deploy token)
     (and_then (pure_step (parseUnits (h_amount h) (t_decimals token)))
       (\<lambda>amount. and_then (request (Transfer contract (h_address h) amount)
             (\<lambda>hist. transfer_answer ch hist contract (h_address h) amount))
          (\<lambda>tx. request (WaitTransfer tx) (\<lambda>hist. waitTransfer_answer ch hist tx))))"
    by (simp add: adds_def and_then_def pure_step_def)
next
  case (Inr amount)
  have "adds (after_deploy token)
     (and_then (request (Transfer contract (h_address h) amount)
             (\<lambda>hist. transfer_answer ch hist contract (h_address h) amount))
          (\<lambda>tx. request (WaitTransfer tx) (\<lambda>hist. waitTransfer_answer ch hist tx)))"
    using assms Inr by (intro adds_and_then adds_request) (auto simp: after_deploy_def)
  with Inr show "adds (after_deploy token)
     (and_then (pure_step (parseUnits (h_amount h) (t_decimals token)))
       (\<lambda>amount. and_then (request (Transfer contract (h_address h) amount)
             (\<lambda>hist. transfer_answer ch hist contract (h_address h) amount))
          (\<lambda>tx. request (WaitTransfer tx) (\<lambda>hist. waitTransfer_answer ch hist tx))))"
    by (simp add: adds_def and_then_def pure_step_def)
qed

lemma adds_distribute_loop:
  "set hs \<subseteq> set (holders_of token) \<Longrightarrow>
   adds (after_deploy token) (distribute_loop ch contract token hs)"
proof (induction hs)
  case Nil
  have "distribute_loop ch contract token [] = pure_step (Inr ())"
    by (rule ext) (simp add: pure_step_def)
  then show ?case by simp
next
  case (Cons h hs)
  then show ?case
    unfolding distribute_loop_Cons
    by (intro adds_and_then adds_transfer_to) simp_all
qed

lemma adds_distributeTokens:
  "adds (after_deploy token) (distributeTokens ch contract token)"
proof -
  have "distributeTokens ch contract token = distribute_loop ch contract token (holders_of token)"
    by (rule ext) (simp add: distributeTokens_def)
  then show ?thesis by (simp add: adds_distribute_loop)
qed

lemma deployToken_calls:
  assumes w: "parseUnits (t_initialSupply token) (t_decimals token) = Inr w"
  shows "\<exists>rest. calls (snd (deployToken ch token s))
           = calls s @ Deploy (constructor_args token w) 3000000 # rest
         \<and> list_all (after_deploy token) rest"
proof -
  let ?args = "constructor_args token w"
  let ?g = "3000000 :: nat"
  let ?k = "\<lambda>tx.
     and_then (request (WaitForDeployment tx) (\<lambda>hist. waitForDeployment_answer ch hist tx))
       (\<lambda>u.
     and_then (request (GetAddress tx) (\<lambda>hist. getAddress_answer ch hist tx))
       (\<lambda>address.
     and_then (request (WaitDeploymentTx tx) (\<lambda>hist. wait_answer ch hist tx))
       (\<lambda>rcpt.
     and_then (if holders_of token \<noteq> [] then distributeTokens ch address token
               else pure_step (Inr ()))
       (\<lambda>u s.
          (Inr address,
           s\<lparr>deployments := deployments s @ [deployment_record token address tx rcpt]\<rparr>)))))"
  let ?d = "request (Deploy ?args ?g) (\<lambda>hist. deploy_answer ch hist ?args ?g)"
  have e: "estimateGas token s = (Inr ?g, s)"
    using w by (simp add: estimateGas_result)
  have unfold: "deployToken ch token s = and_then ?d ?k s"
    unfolding deployToken_def
    by (subst and_then_Inr [where x = w], simp add: w)
       (subst and_then_Inr [where x = ?g], simp add: e, simp add: e)
  have k: "adds (after_deploy token) (?k tx)" for tx
    by (intro adds_and_then adds_request adds_if adds_distributeTokens adds_pure_step adds_final)
       (simp_all add: after_deploy_def)
  show ?thesis
  proof (rule and_then_cases [of ?d s ?k])
    fix e
    assume "and_then ?d ?k s = (Inl e, snd (?d s))"
    with unfold have "calls (snd (deployToken ch token s)) = calls s @ Deploy ?args ?g # []"
      by simp
    moreover have "list_all (after_deploy token) []" by simp
    ultimately show ?thesis by blast
  next
    fix tx
    assume "and_then ?d ?k s = ?k tx (snd (?d s))"
    with unfold have d: "deployToken ch token s = ?k tx (snd (?d s))"
      by simp
    from k [of tx] obtain rest where
      "calls (snd (?k tx (snd (?d s)))) = calls (snd (?d s)) @ rest"
      "list_all (after_deploy token) rest"
      unfolding adds_def by blast
    with d have "calls (snd (deployToken ch token s)) = calls s @ Deploy ?args ?g # rest
        \<and> list_all (after_deploy token) rest"
      by simp
    then show ?thesis by blast
  qed
qed


subsection \<open>Failed steps\<close>

lemma requests_eq: "calls (snd (m s)) = calls s @ new \<Longrightarrow> requests m s = new"
  by (simp add: requests_def)

lemma step_fails_append:
  "step_fails ch hist (xs @ ys) = (step_fails ch hist xs \<or> step_fails ch (hist @ xs) ys)"
  by (induction xs arbitrary: hist) simp_all

lemma faithful_pure_step: "(accepted \<Longrightarrow> \<not> isl r) \<Longrightarrow> faithful ch accepted (pure_step r)"
  by (auto simp: faithful_def)

lemma faithful_request:
  assumes "\<And>hist. isl (answer hist) = refused ch hist c"
  shows "faithful ch accepted (request c answer)"
  unfolding faithful_def
proof
  fix s
  have "calls (snd (request c answer s)) = calls s @ [c]
      \<and> (step_fails ch (calls s) [c] \<longrightarrow> isl (fst (request c answer s)))
      \<and> (accepted \<and> isl (fst (request c answer s)) \<longrightarrow> step_fails ch (calls s) [c])"
    by (simp add: assms)
  then show "\<exists>new. calls (snd (request c answer s)) = calls s @ new
      \<and> (step_fails ch (calls s) new \<longrightarrow> isl (fst (request c answer s)))
      \<and> (accepted \<and> isl (fst (request c answer s)) \<longrightarrow> step_fails ch (calls s) new)"
    by blast
qed

lemma faithful_and_then:
  assumes "faithful ch accepted m" "\<And>x. faithful ch accepted (k x)"
  shows "faithful ch accepted (and_then m k)"
  unfolding faithful_def
proof
  fix s
  from assms(1) obtain n1 where n1: "calls (snd (m s)) = calls s @ n1"
    "step_fails ch (calls s) n1 \<longrightarrow> isl (fst (m s))"
    "accepted \<and> isl (fst (m s)) \<longrightarrow> step_fails ch (calls s) n1"
    unfolding faithful_def by blast
  show "\<exists>new. calls (snd (and_then m k s)) = calls s @ new
      \<and> (step_fails ch (calls s) new \<longrightarrow> isl (fst (and_then m k s)))
      \<and> (accepted \<and> isl (fst (and_then m k s)) \<longrightarrow> step_fails ch (calls s) new)"
  proof (rule and_then_cases [of m s k])
    fix e assume "fst (m s) = Inl e" "and_then m k s = (Inl e, snd (m s))"
    with n1 have "calls (snd (and_then m k s)) = calls s @ n1
      \<and> (step_fails ch (calls s) n1 \<longrightarrow> isl (fst (and_then m k s)))
      \<and> (accepted \<and> isl (fst (and_then m k s)) \<longrightarrow> step_fails ch (calls s) n1)"
      by simp
    then show ?thesis by blast
  next
    fix x assume x: "fst (m s) = Inr x" "and_then m k s = k x (snd (m s))"
    from assms(2) [of x] obtain n2 where n2:
      "calls (snd (k x (snd (m s)))) = calls (snd (m s)) @ n2"
      "step_fails ch (calls (snd (m s))) n2 \<longrightarrow> isl (fst (k x (snd (m s))))"
      "accepted \<and> isl (fst (k x (snd (m s)))) \<longrightarrow> step_fails ch (calls (snd (m s))) n2"
      unfolding faithful_def by blast
    from n1(2) x(1) have no1: "\<not> step_fails ch (calls s) n1"
      by auto
    with n1(1) n2 x(2) have "calls (snd (and_then m k s)) = calls s @ (n1 @ n2)
      \<and> (step_fails ch (calls s) (n1 @ n2) \<longrightarrow> isl (fst (and_then m k s)))
      \<and> (accepted \<and> isl (fst (and_then m k s)) \<longrightarrow> step_fails ch (calls s) (n1 @ n2))"
      by (simp add: step_fails_append)
    then show ?thesis by blast
  qed
qed

lemma faithful_if:
  "faithful ch accepted m \<Longrightarrow> faithful ch accepted m' \<Longrightarrow>
   faithful ch accepted (if b then m else m')"
  by simp

lemma faithful_final: "faithful ch accepted (\<lambda>s. (Inr x, s\<lparr>deployments := ds s\<rparr>))"
  by (simp add: faithful_def)

lemma faithful_estimateGas: "faithful ch (strings_accepted token) (estimateGas token)"
proof -
  have "estimateGas token
      = and_then (pure_step (parseUnits (t_initialSupply token) (t_decimals token)))
          (\<lambda>w. pure_step (Inr 3000000))"
    by (rule ext)
       (simp add: estimateGas_def getDeployTransaction_estimateGas_def and_then_def pure_step_def
          split: sum.splits)
  then show ?thesis
    by (simp add: faithful_and_then faithful_pure_step strings_accepted_def)
qed

lemma faithful_transfer_to:
  assumes "h \<in> set (holders_of token)"
  shows "faithful ch (strings_accepted token) (transfer_to ch contract token h)"
  unfolding transfer_to_def
proof (intro faithful_and_then faithful_pure_step faithful_request)
  assume "strings_accepted token"
  with assms show "\<not> isl (parseUnits (h_amount h) (t_decimals token))"
    by (simp add: strings_accepted_def list_all_iff)
qed (simp_all add: refused_def)

lemma faithful_distribute_loop:
  "set hs \<subseteq> set (holders_of token) \<Longrightarrow>
   faithful ch (strings_accepted token) (distribute_loop ch contract token hs)"
proof (induction hs)
  case Nil
  have "distribute_loop ch contract token [] = pure_step (Inr ())"
    by (rule ext) (simp add: pure_step_def)
  then show ?case by (simp add: faithful_pure_step)
next
  case (Cons h hs)
  then show ?case
    unfolding distribute_loop_Cons
    by (intro faithful_and_then faithful_transfer_to) simp_all
qed

lemma faithful_distributeTokens:
  "faithful ch (strings_accepted token) (distributeTokens ch contract token)"
proof -
  have "distributeTokens ch contract token = distribute_loop ch contract token (holders_of token)"
    by (rule ext) (simp add: distributeTokens_def)
  then show ?thesis by (simp add: faithful_distribute_loop)
qed

lemma faithful_deployToken: "faithful ch (strings_accepted token) (deployToken ch token)"
  unfolding deployToken_def
  by (intro faithful_and_then faithful_request faithful_if faithful_distributeTokens
        faithful_estimateGas faithful_final faithful_pure_step)
     (simp_all add: refused_def strings_accepted_def)

lemma failed_step_throws:
  assumes "step_fails ch (calls s) (requests (deployToken ch token) s)"
  shows "isl (fst (deployToken ch token s))"
proof -
  from faithful_deployToken [of ch token] obtain new where
    new: "calls (snd (deployToken ch token s)) = calls s @ new"
    "step_fails ch (calls s) new \<longrightarrow> isl (fst (deployToken ch token s))"
    unfolding faithful_def by blast
  from new(1) have "requests (deployToken ch token) s = new"
    by (rule requests_eq)
  with assms new(2) show ?thesis by simp
qed

lemma throw_has_failed_step:
  assumes "strings_accepted token" "isl (fst (deployToken ch token s))"
  shows "step_fails ch (calls s) (requests (deployToken ch token) s)"
proof -
  from faithful_deployToken [of ch token] obtain new where
    new: "calls (snd (deployToken ch token s)) = calls s @ new"
    "strings_accepted token \<and> isl (fst (deployToken ch token s)) \<longrightarrow> step_fails ch (calls s) new"
    unfolding faithful_def by blast
  from new(1) have "requests (deployToken ch token) s = new"
    by (rule requests_eq)
  with assms new(2) show ?thesis by simp
qed


subsection \<open>The transfers of a distribution\<close>

lemma transfer_to_success:
  assumes "transfer_to ch contract token h s = (Inr u, s')"
  obtains amount tx where "parseUnits (h_amount h) (t_decimals token) = Inr amount"
    "calls s' = calls s @ [Transfer contract (h_address h) amount, WaitTransfer tx]"
  using assms unfolding transfer_to_def
  by (auto simp: and_then_eq_Inr pure_step_def request_def)

lemma distribute_loop_success:
  assumes "distribute_loop ch contract token hs s = (Inr u, s')"
  shows "\<exists>new. calls s' = calls s @ new
     \<and> list_all2 (\<lambda>h p. fst p = h_address h
          \<and> parseUnits (h_amount h) (t_decimals token) = Inr (snd p)) hs (transfers new)"
  using assms
proof (induction hs arbitrary: s)
  case Nil
  then show ?case by simp
next
  case (Cons h hs)
  from Cons.prems obtain u1 s1 where
    1: "transfer_to ch contract token h s = (Inr u1, s1)"
    and 2: "distribute_loop ch contract token hs s1 = (Inr u, s')"
    by (auto split: prod.splits sum.splits)
  from 1 obtain amount tx where a: "parseUnits (h_amount h) (t_decimals token) = Inr amount"
    and c: "calls s1 = calls s @ [Transfer contract (h_address h) amount, WaitTransfer tx]"
    by (rule transfer_to_success)
  from Cons.IH [OF 2] obtain new where new: "calls s' = calls s1 @ new"
    "list_all2 (\<lambda>h p. fst p = h_address h
          \<and> parseUnits (h_amount h) (t_decimals token) = Inr (snd p)) hs (transfers new)"
    by blast
  let ?new = "[Transfer contract (h_address h) amount, WaitTransfer tx] @ new"
  from new c a have "calls s' = calls s @ ?new
     \<and> list_all2 (\<lambda>h p. fst p = h_address h
          \<and> parseUnits (h_amount h) (t_decimals token) = Inr (snd p)) (h # hs) (transfers ?new)"
    by simp
  then show ?case by blast
qed

lemma deployToken_success_transfers:
  assumes "deployToken ch token s = (Inr a, t)"
  shows "list_all2 (\<lambda>h p. fst p = h_address h
          \<and> parseUnits (h_amount h) (t_decimals token) = Inr (snd p))
       (holders_of token) (transfers (requests (deployToken ch token) s))"
proof -
  let ?P = "\<lambda>h p. fst p = h_address h \<and> parseUnits (h_amount h) (t_decimals token) = Inr (snd p)"
  from assms obtain w tx rcpt s6 where
    d: "(if holders_of token \<noteq> [] then distributeTokens ch a token else pure_step (Inr ()))
       (s\<lparr>calls := calls s @ [Deploy (constructor_args token w) 3000000, WaitForDeployment tx,
           GetAddress tx, WaitDeploymentTx tx]\<rparr>) = (Inr (), s6)"
    and t: "t = s6\<lparr>deployments := deployments s6 @ [deployment_record token a tx rcpt]\<rparr>"
    by (rule deployToken_success)
  let ?first = "[Deploy (constructor_args token w) 3000000, WaitForDeployment tx,
           GetAddress tx, WaitDeploymentTx tx]"
  have "\<exists>new. calls s6 = (calls s @ ?first) @ new \<and> list_all2 ?P (holders_of token) (transfers new)"
  proof (cases "holders_of token = []")
    case True
    with d have "calls s6 = (calls s @ ?first) @ [] \<and> list_all2 ?P (holders_of token) (transfers [])"
      by (auto simp: pure_step_def)
    then show ?thesis by blast
  next
    case False
    with d have "distribute_loop ch a token (holders_of token)
       (s\<lparr>calls := calls s @ ?first\<rparr>) = (Inr (), s6)"
      by (simp add: distributeTokens_def)
    from distribute_loop_success [OF this] show ?thesis by simp
  qed
  then obtain new where new: "calls s6 = (calls s @ ?first) @ new"
    "list_all2 ?P (holders_of token) (transfers new)"
    by blast
  from new(1) t assms have "calls (snd (deployToken ch token s)) = calls s @ (?first @ new)"
    by simp
  then have "requests (deployToken ch token) s = ?first @ new"
    by (rule requests_eq)
  with new(2) show ?thesis by simp
qed


subsection \<open>Concrete runs, evaluated\<close>

lemma replicate_numeral_unfold [simp]: "replicate (numeral n) x = x # replicate (pred_numeral n) x"
  by (simp add: numeral_eq_Suc)

lemmas run_defs = deployToken_def estimateGas_def getDeployTransaction_estimateGas_def
  distributeTokens_def transfer_to_def
  holders_of_def and_then_def pure_step_def request_def constructor_args_def or_false_def
  deployment_record_def parseUnits_def is_digit_def digits_val_def digit_val_def digit_char_def

lemma compile_run: "compileContract (world_with c) state0 = (Return (), state_c)"
  by (simp add: compileContract_def world_with_def writeFileSync_def state_c_def state0_def)

lemma run_A: "fst (deployToken chain_B_fails tokenA state_c) = Inr ''0xaddrAAA''"
  by (simp add: run_defs tokenA_def chain_B_fails_def state_c_def state0_def)

lemma run_B: "fst (deployToken chain_B_fails tokenB (snd (deployToken chain_B_fails tokenA state_c)))
    = Inl (Error ''insufficient funds'')"
  by (simp add: run_defs tokenA_def tokenB_def chain_B_fails_def state_c_def state0_def)

lemma run_C: "fst (deployToken chain_B_fails tokenC
     (snd (deployToken chain_B_fails tokenB (snd (deployToken chain_B_fails tokenA state_c)))))
    = Inr ''0xaddrCCC''"
  by (simp add: run_defs tokenA_def tokenB_def tokenC_def chain_B_fails_def state_c_def state0_def)

lemma run_A_rec: "deployments (snd (deployToken chain_B_fails tokenA state_c)) = 
  [\<lparr>d_name = ''Alpha'', d_symbol = ''AAA'', d_address = ''0xaddrAAA'',
      d_decimals = 18, d_initialSupply = ''1000'', d_mintable = True,
      d_burnable = False, d_pausable = False, d_deploymentTx = ''0xtxAAA'',
      d_blockNumber = 104, d_gasUsed = ''900000''\<rparr>]"
  by (simp add: run_defs tokenA_def chain_B_fails_def state_c_def state0_def)


subsection \<open>The loop over the tokens, and the run\<close>

lemma deploy_loop_keeps_files [simp]:
  "files (snd (deploy_loop ch cont ts s)) = files s"
proof (induction ts arbitrary: s)
  case Nil
  show ?case by simp
next
  case (Cons token rest)
  show ?case
  proof (cases "deployToken ch token s")
    case (Pair r s')
    then have "files s' = files s"
      using deployToken_keeps_files [of ch token s] by simp
    with Pair Cons.IH [of s'] show ?thesis
      by (cases r) auto
  qed
qed

lemma writeFileSync_keeps_deployments [simp]:
  "deployments (snd (writeFileSync w path text s)) = deployments s"
  by (simp add: writeFileSync_def)

lemma writeFileSync_other_path:
  "p \<noteq> path \<Longrightarrow> files (snd (writeFileSync w path text s)) p = files s p"
  by (simp add: writeFileSync_def)

lemma saveDeploymentReport_keeps_deployments [simp]:
  "deployments (snd (saveDeploymentReport w net s)) = deployments s"
  unfolding saveDeploymentReport_def
  by (rule and_then_keeps) simp_all

lemma compileContract_keeps_deployments [simp]:
  "deployments (snd (compileContract w s)) = deployments s"
  by (simp add: compileContract_def writeFileSync_def split: compile_result.splits)

lemma compileContract_other_path:
  "p \<noteq> abiPath \<Longrightarrow> files (snd (compileContract w s)) p = files s p"
  by (simp add: compileContract_def writeFileSync_def split: compile_result.splits)

lemma abiPath_not_addressPath [simp]: "addressPath \<noteq> abiPath"
  by (simp add: addressPath_def abiPath_def)

lemma abiPath_not_reportPath [simp]: "reportPath net ts \<noteq> abiPath"
  by (simp add: reportPath_def abiPath_def)


subsection \<open>Failure of a token, and the gas limit\<close>

text \<open>
  C3. A step of the deployment of a token fails when the chain client answers one of the
  requests that \<open>deployToken\<close> makes for the token with an error: the submission of the
  deployment transaction, one of the requests that confirm it, the submission of a
  transfer of the distribution or its confirmation. Whenever a step fails,
  \<open>deployToken\<close> throws, the record list is as it was before the call (no record of the
  failed token is appended), and no file is written. In the loop of \<open>deploy\<close> the failed
  token is passed over with the list unchanged, or ends the loop.
\<close>

theorem deployToken_failure_no_record:
  assumes "step_fails ch (calls s) (requests (deployToken ch token) s)"
  shows "(\<exists>e. fst (deployToken ch token s) = Inl e
            \<and> deploy_loop ch cont (token # rest) s
                = (if cont then deploy_loop ch cont rest (snd (deployToken ch token s))
                   else (Inl e, snd (deployToken ch token s))))
       \<and> deployments (snd (deployToken ch token s)) = deployments s
       \<and> files (snd (deployToken ch token s)) = files s"
proof -
  from assms have "isl (fst (deployToken ch token s))"
    by (rule failed_step_throws)
  then obtain e where e: "fst (deployToken ch token s) = Inl e"
    by (cases "fst (deployToken ch token s)") simp_all
  then have "deployments (snd (deployToken ch token s)) = deployments s"
    by (rule deployToken_error_keeps_deployments)
  moreover from e have "deploy_loop ch cont (token # rest) s
           = (if cont then deploy_loop ch cont rest (snd (deployToken ch token s))
              else (Inl e, snd (deployToken ch token s)))"
    by (cases "deployToken ch token s") simp
  ultimately show ?thesis using e by simp
qed

lemma run_B_alone:
  "fst (deployToken chain_B_fails tokenB s) = Inl (Error ''insufficient funds'')"
  by (simp add: run_defs tokenB_def chain_B_fails_def)

lemma submission_fails:
  "requests (deployToken chain_B_fails tokenB) state0 = [Deploy (constructor_args tokenB 5000000) 3000000]"
  "fst (deployToken chain_B_fails tokenB state0) = Inl (Error ''insufficient funds'')"
  by (simp_all add: requests_def run_defs tokenB_def chain_B_fails_def state0_def)

lemma confirmation_fails:
  "requests (deployToken chain_unconfirmed tokenA) state0
     = [Deploy (constructor_args tokenA 1000000000000000000000) 3000000,
        WaitForDeployment ''0xtxAAA'']"
  "fst (deployToken chain_unconfirmed tokenA state0) = Inl (Error ''transaction was not mined'')"
  by (simp_all add: requests_def run_defs tokenA_def chain_unconfirmed_def chain_B_fails_def
      state0_def)

lemma transfer_fails:
  "requests (deployToken chain_transfer_fails tokenA) state0
     = [Deploy (constructor_args tokenA 1000000000000000000000) 3000000,
        WaitForDeployment ''0xtxAAA'', GetAddress ''0xtxAAA'', WaitDeploymentTx ''0xtxAAA'',
        Transfer ''0xaddrAAA'' ''0x01'' 500000000000000000]"
  "fst (deployToken chain_transfer_fails tokenA state0) = Inl (Error ''transfer reverted'')"
  by (simp_all add: requests_def run_defs tokenA_def chain_transfer_fails_def chain_B_fails_def
      state0_def)

theorem deployToken_failure_no_record_witness:
  "step_fails chain_B_fails (calls state0) (requests (deployToken chain_B_fails tokenB) state0)
   \<and> fst (deployToken chain_B_fails tokenB state0) = Inl (Error ''insufficient funds'')
   \<and> deployments (snd (deployToken chain_B_fails tokenB state0)) = []
   \<and> step_fails chain_unconfirmed (calls state0)
       (requests (deployToken chain_unconfirmed tokenA) state0)
   \<and> fst (deployToken chain_unconfirmed tokenA state0) = Inl (Error ''transaction was not mined'')
   \<and> deployments (snd (deployToken chain_unconfirmed tokenA state0)) = []
   \<and> step_fails chain_transfer_fails (calls state0)
       (requests (deployToken chain_transfer_fails tokenA) state0)
   \<and> fst (deployToken chain_transfer_fails tokenA state0) = Inl (Error ''transfer reverted'')
   \<and> deployments (snd (deployToken chain_transfer_fails tokenA state0)) = []"
proof -
  have f1: "step_fails chain_B_fails (calls state0)
      (requests (deployToken chain_B_fails tokenB) state0)"
    unfolding submission_fails(1)
    by (simp add: refused_def chain_B_fails_def constructor_args_def tokenB_def)
  have f2: "step_fails chain_unconfirmed (calls state0)
      (requests (deployToken chain_unconfirmed tokenA) state0)"
    unfolding confirmation_fails(1)
    by (simp add: refused_def chain_unconfirmed_def chain_B_fails_def constructor_args_def
        tokenA_def)
  have f3: "step_fails chain_transfer_fails (calls state0)
      (requests (deployToken chain_transfer_fails tokenA) state0)"
    unfolding transfer_fails(1)
    by (simp add: refused_def chain_transfer_fails_def chain_B_fails_def constructor_args_def
        tokenA_def)
  from deployToken_failure_no_record [OF f1] deployToken_failure_no_record [OF f2]
    deployToken_failure_no_record [OF f3] f1 f2 f3
    submission_fails(2) confirmation_fails(2) transfer_fails(2)
  show ?thesis by (simp add: state0_def)
qed

text \<open>
  The gas limit. The call in the \<open>try\<close> block of \<open>estimateGas\<close> throws for every token,
  before a request is made, and the \<open>catch\<close> block returns the default: with the supply
  string accepted, \<open>estimateGas\<close> returns 3000000 and leaves the log as it was, so that
  the estimation failure never aborts a deployment, and \<open>deployToken\<close> submits the
  deployment with the gas limit 3000000. No estimate of the chain client enters it.
\<close>

lemma estimateGas_default:
  assumes "parseUnits (t_initialSupply token) (t_decimals token) = Inr w"
  shows "estimateGas token s = (Inr 3000000, s)"
    and "\<exists>rest. calls (snd (deployToken ch token s))
           = calls s @ Deploy (constructor_args token w) 3000000 # rest
         \<and> list_all (after_deploy token) rest"
  using assms by (simp add: estimateGas_result, rule deployToken_calls)

lemma no_estimation_request:
  "EstimateGas args \<notin> set (requests (deployToken ch token) s)"
proof (cases "parseUnits (t_initialSupply token) (t_decimals token)")
  case (Inl e)
  then have "deployToken ch token s = (Inl e, s)"
    by (simp add: deployToken_def and_then_def pure_step_def)
  then show ?thesis by (simp add: requests_def)
next
  case (Inr w)
  from deployToken_calls [OF this, of ch s] obtain rest where
    rest: "calls (snd (deployToken ch token s))
       = calls s @ Deploy (constructor_args token w) 3000000 # rest"
    "list_all (after_deploy token) rest"
    by blast
  from rest(1) have "requests (deployToken ch token) s
      = Deploy (constructor_args token w) 3000000 # rest"
    by (rule requests_eq)
  moreover from rest(2) have "EstimateGas args \<notin> set rest"
    by (auto simp: list_all_iff after_deploy_def)
  ultimately show ?thesis by simp
qed

text \<open>
  C4, at a run. The chain client \<open>chain_B_fails\<close> estimates 1000001 for every constructor
  call, for which the gas limit that the spec describes is 1200001. For the token
  \<open>tokenC\<close>, \<open>estimateGas\<close> returns 3000000 and makes no request; the deployment is
  submitted with the gas limit 3000000, and succeeds.
\<close>

theorem estimateGas_ignores_estimate:
  "estimateGas_answer chain_B_fails (calls state0) (constructor_args tokenC 7) = Inr 1000001
   \<and> claimed_gas_limit chain_B_fails (calls state0) (constructor_args tokenC 7) = 1200001
   \<and> estimateGas tokenC state0 = (Inr 3000000, state0)
   \<and> requests (deployToken chain_B_fails tokenC) state0
       = [Deploy (constructor_args tokenC 7) 3000000, WaitForDeployment ''0xtxCCC'',
          GetAddress ''0xtxCCC'', WaitDeploymentTx ''0xtxCCC'']
   \<and> fst (deployToken chain_B_fails tokenC state0) = Inr ''0xaddrCCC''"
proof -
  have "estimateGas_answer chain_B_fails (calls state0) (constructor_args tokenC 7) = Inr 1000001"
    by (simp add: chain_B_fails_def)
  moreover from this
  have "claimed_gas_limit chain_B_fails (calls state0) (constructor_args tokenC 7) = 1200001"
    by (simp add: claimed_gas_limit_def)
  moreover have "estimateGas tokenC state0 = (Inr 3000000, state0)"
    by (simp add: run_defs tokenC_def state0_def)
  moreover have "requests (deployToken chain_B_fails tokenC) state0
       = [Deploy (constructor_args tokenC 7) 3000000, WaitForDeployment ''0xtxCCC'',
          GetAddress ''0xtxCCC'', WaitDeploymentTx ''0xtxCCC'']"
    by (simp add: requests_def run_defs tokenC_def chain_B_fails_def state0_def)
  moreover have "fst (deployToken chain_B_fails tokenC state0) = Inr ''0xaddrCCC''"
    by (simp add: run_defs tokenC_def chain_B_fails_def state0_def)
  ultimately show ?thesis by simp
qed


subsection \<open>Three tokens, the second failing\<close>

lemma deploy_loop_three:
  assumes "deployToken ch t1 sc = (Inr a1, s1)" "deployToken ch t2 s1 = (Inl e, s2)"
    "deployToken ch t3 s2 = (Inr a3, s3)"
  shows "deploy_loop ch False [t1, t2, t3] sc = (Inl e, s2)"
    "deploy_loop ch True [t1, t2, t3] sc = (Inr (), s3)"
  using assms by simp_all

lemma saveDeploymentReport_writable:
  assumes "writable w (reportPath net (now_file w))" "writable w addressPath"
  shows "saveDeploymentReport w net s
     = (Inr (), s\<lparr>files := (files s)
          (reportPath net (now_file w) \<mapsto>
             JSON_stringify (report_json (now_report w) net (wallet_address w) (deployments s)),
           addressPath \<mapsto> JSON_stringify (JObj (addressMap (deployments s))))\<rparr>)"
  using assms by (simp add: saveDeploymentReport_def writeFileSync_def and_then_def)

text \<open>
  C1, as the script has it. Take three token definitions of which the first and the third
  deploy and the second throws. Without \<open>continueOnError\<close> the loop ends at the second
  token: the record list holds the record of the first token and nothing else, the third
  token is never attempted (the run stops in the state the failure left), and the process
  exits with code 1 without writing a report or an address map: the files are those left
  by \<open>compileContract\<close>. With \<open>continueOnError\<close> the loop goes on, the list holds the
  records of the first and the third token, and when both paths can be written the report
  and the address map are written from these two records.
\<close>

theorem deploy_second_of_three_fails:
  assumes "networkInfo_name w = Inr name" "config_source w = ConfigFile cfg"
    "tokens cfg = [t1, t2, t3]" "validate_all w [t1, t2, t3] = Inr ()"
    "compileContract w s = (Return (), sc)"
    "deployToken (chain_client w) t1 sc = (Inr a1, s1)"
    "deployToken (chain_client w) t2 s1 = (Inl e, s2)"
    "deployToken (chain_client w) t3 s2 = (Inr a3, s3)"
  shows "(\<not> truthy (continueOnError cfg) \<longrightarrow>
            deploy_loop (chain_client w) (truthy (continueOnError cfg)) (tokens cfg) sc = (Inl e, s2)
          \<and> deploy w s = (Some 1, s2)
          \<and> (\<exists>tx rcpt. deployments s2 = deployments s @ [deployment_record t1 a1 tx rcpt])
          \<and> files s2 = files sc)
       \<and> (truthy (continueOnError cfg) \<longrightarrow>
            deploy_loop (chain_client w) (truthy (continueOnError cfg)) (tokens cfg) sc = (Inr (), s3)
          \<and> (\<exists>tx1 rcpt1 tx3 rcpt3. deployments s3
                = deployments s @ [deployment_record t1 a1 tx1 rcpt1, deployment_record t3 a3 tx3 rcpt3])
          \<and> (writable w (reportPath (network_or (network cfg) name) (now_file w))
               \<and> writable w addressPath \<longrightarrow>
              deploy w s = (None, s3\<lparr>files := (files sc)
                (reportPath (network_or (network cfg) name) (now_file w) \<mapsto>
                   JSON_stringify (report_json (now_report w) (network_or (network cfg) name)
                      (wallet_address w) (deployments s3)),
                 addressPath \<mapsto> JSON_stringify (JObj (addressMap (deployments s3))))\<rparr>)))"
proof -
  let ?ch = "chain_client w"
  have load: "loadTokenConfig w = Return cfg"
    using assms(2-4) by (simp add: loadTokenConfig_def)
  have dsc: "deployments sc = deployments s"
    using compileContract_keeps_deployments [of w s] assms(5) by simp
  from assms(6) obtain tx1 rcpt1 where r1: "deployments s1 = deployments sc @ [deployment_record t1 a1 tx1 rcpt1]"
    using deployToken_success_appends by blast
  have r2: "deployments s2 = deployments s1"
    using deployToken_error_keeps_deployments [of ?ch t2 s1 e] assms(7) by simp
  from assms(8) obtain tx3 rcpt3 where r3: "deployments s3 = deployments s2 @ [deployment_record t3 a3 tx3 rcpt3]"
    using deployToken_success_appends by blast
  have f1: "files s1 = files sc"
    using deployToken_keeps_files [of ?ch t1 sc] assms(6) by simp
  have f2: "files s2 = files s1"
    using deployToken_keeps_files [of ?ch t2 s1] assms(7) by simp
  have f3: "files s3 = files s2"
    using deployToken_keeps_files [of ?ch t3 s2] assms(8) by simp
  note loops = deploy_loop_three [OF assms(6-8)]
  have abort: "deploy w s = (Some 1, s2)" if "\<not> truthy (continueOnError cfg)"
    using that assms(1,3,5) load loops(1) by (simp add: deploy_def)
  have go: "deploy w s = (None, s3\<lparr>files := (files sc)
                (reportPath (network_or (network cfg) name) (now_file w) \<mapsto>
                   JSON_stringify (report_json (now_report w) (network_or (network cfg) name)
                      (wallet_address w) (deployments s3)),
                 addressPath \<mapsto> JSON_stringify (JObj (addressMap (deployments s3))))\<rparr>)"
    if "truthy (continueOnError cfg)"
      "writable w (reportPath (network_or (network cfg) name) (now_file w))"
      "writable w addressPath"
    using that assms(1,3,5) load loops(2) r3 f1 f2 f3
    by (simp add: deploy_def saveDeploymentReport_writable)
  from r1 r2 r3 dsc have two: "deployments s3
      = deployments s @ [deployment_record t1 a1 tx1 rcpt1, deployment_record t3 a3 tx3 rcpt3]"
    by simp
  from r1 r2 dsc have one: "deployments s2 = deployments s @ [deployment_record t1 a1 tx1 rcpt1]"
    by simp
  show ?thesis
  proof (intro conjI impI)
    assume "\<not> truthy (continueOnError cfg)"
    then show "deploy_loop ?ch (truthy (continueOnError cfg)) (tokens cfg) sc = (Inl e, s2)"
      using loops(1) assms(3) by simp
  next
    assume "\<not> truthy (continueOnError cfg)"
    then show "deploy w s = (Some 1, s2)" by (rule abort)
  next
    show "\<exists>tx rcpt. deployments s2 = deployments s @ [deployment_record t1 a1 tx rcpt]"
      using one by blast
  next
    show "files s2 = files sc" using f1 f2 by simp
  next
    assume "truthy (continueOnError cfg)"
    then show "deploy_loop ?ch (truthy (continueOnError cfg)) (tokens cfg) sc = (Inr (), s3)"
      using loops(2) assms(3) by simp
  next
    show "\<exists>tx1 rcpt1 tx3 rcpt3. deployments s3
        = deployments s @ [deployment_record t1 a1 tx1 rcpt1, deployment_record t3 a3 tx3 rcpt3]"
      using two by blast
  next
    assume "truthy (continueOnError cfg)"
      "writable w (reportPath (network_or (network cfg) name) (now_file w)) \<and> writable w addressPath"
    then show "deploy w s = (None, s3\<lparr>files := (files sc)
                (reportPath (network_or (network cfg) name) (now_file w) \<mapsto>
                   JSON_stringify (report_json (now_report w) (network_or (network cfg) name)
                      (wallet_address w) (deployments s3)),
                 addressPath \<mapsto> JSON_stringify (JObj (addressMap (deployments s3))))\<rparr>)"
      using go by simp
  qed
qed


lemma world_with_simps [simp]:
  "networkInfo_name (world_with c) = Inr ''sepolia''"
  "config_source (world_with c)
     = ConfigFile \<lparr>network = None, continueOnError = c, tokens = [tokenA, tokenB, tokenC]\<rparr>"
  "chain_client (world_with c) = chain_B_fails"
  "writable (world_with c) p"
  "now_file (world_with c) = ''2024-01-02T03:04:05.678Z''"
  "now_report (world_with c) = ''2024-01-02T03:04:05.679Z''"
  "wallet_address (world_with c) = ''0xdeployer''"
  by (simp_all add: world_with_def)

lemma validate_run: "validate_all (world_with c) [tokenA, tokenB, tokenC] = Inr ()"
  by (simp add: validateTokenConfig_def holders_of_def tokenA_def tokenB_def tokenC_def
      world_with_def)

lemma run_pairs:
  "deployToken chain_B_fails tokenA state_c = (Inr ''0xaddrAAA'', state_A)"
  "deployToken chain_B_fails tokenB state_A = (Inl (Error ''insufficient funds''), state_B)"
  "deployToken chain_B_fails tokenC state_B = (Inr ''0xaddrCCC'', state_C)"
  using run_A run_B run_C
  by (simp_all add: state_A_def state_B_def state_C_def prod_eq_iff)

lemma state_A_deployments: "deployments state_A = [record_A]"
  using run_A_rec by (simp add: state_A_def record_A_def)

lemma state_B_deployments: "deployments state_B = [record_A]"
proof -
  have "fst (deployToken chain_B_fails tokenB state_A) = Inl (Error ''insufficient funds'')"
    by (simp add: run_pairs(2))
  then have "deployments (snd (deployToken chain_B_fails tokenB state_A)) = deployments state_A"
    by (rule deployToken_error_keeps_deployments)
  then show ?thesis
    by (simp add: run_pairs(2) state_A_deployments)
qed

lemma state_B_files: "files state_B = [abiPath \<mapsto> ''[]'']"
  by (simp add: state_B_def state_A_def state_c_def state0_def)

lemma load_run:
  "loadTokenConfig (world_with c)
     = Return \<lparr>network = None, continueOnError = c, tokens = [tokenA, tokenB, tokenC]\<rparr>"
  unfolding loadTokenConfig_def by (simp add: validate_run del: validate_all.simps)

lemma deploy_abort_run: "deploy (world_with (Some False)) state0 = (Some 1, state_B)"
  using run_pairs
  by (simp add: deploy_def load_run compile_run truthy_def)

theorem deploy_second_of_three_fails_witness:
  "fst (deploy (world_with (Some False)) state0) = Some 1
   \<and> map d_symbol (deployments (snd (deploy (world_with (Some False)) state0))) = [''AAA'']
   \<and> fst (deploy (world_with (Some True)) state0) = None
   \<and> map d_symbol (deployments (snd (deploy (world_with (Some True)) state0))) = [''AAA'', ''CCC'']"
proof -
  note t = deploy_second_of_three_fails [where name = "''sepolia''"
      and ?t1.0 = tokenA and ?t2.0 = tokenB and ?t3.0 = tokenC and s = state0 and sc = state_c
      and ?a1.0 = "''0xaddrAAA''" and ?s1.0 = state_A and e = "Error ''insufficient funds''"
      and ?s2.0 = state_B and ?a3.0 = "''0xaddrCCC''" and ?s3.0 = state_C,
      OF world_with_simps(1) world_with_simps(2) _ validate_run compile_run,
      unfolded world_with_simps, OF _ run_pairs, simplified]
  have "fst (deploy (world_with (Some False)) state0) = Some 1
      \<and> map d_symbol (deployments (snd (deploy (world_with (Some False)) state0))) = [''AAA'']"
    using t [of "Some False"] by (auto simp: truthy_def state0_def deployment_record_def tokenA_def)
  moreover have "fst (deploy (world_with (Some True)) state0) = None
      \<and> map d_symbol (deployments (snd (deploy (world_with (Some True)) state0))) = [''AAA'', ''CCC'']"
    using t [of "Some True"]
    by (auto simp: truthy_def state0_def deployment_record_def tokenA_def tokenC_def)
  ultimately show ?thesis by simp
qed

text \<open>
  The claim as the spec words it has the record of the first token preserved for
  reporting. In the run with \<open>continueOnError\<close> false the record is in the list, but the
  process exits with code 1 and the only file on disk is the ABI file: no report, no
  address map.
\<close>

theorem abort_leaves_no_report:
  "fst (deploy (world_with (Some False)) state0) = Some 1
   \<and> deployments (snd (deploy (world_with (Some False)) state0)) = [record_A]
   \<and> files (snd (deploy (world_with (Some False)) state0)) = [abiPath \<mapsto> ''[]'']"
  by (simp add: deploy_abort_run state_B_deployments state_B_files)

subsection \<open>A run that deploys nothing\<close>

text \<open>
  C10. When the run ends with an empty record list, it has written neither a deployment
  report nor the address map: \<open>latest-addresses.json\<close> and every report path hold what
  they held before, and so does every path but the one of the ABI file, which
  \<open>compileContract\<close> writes.
\<close>

theorem deploy_no_records_no_report:
  assumes "deployments (snd (deploy w s)) = []"
  shows "files (snd (deploy w s)) addressPath = files s addressPath
       \<and> (\<forall>net ts. files (snd (deploy w s)) (reportPath net ts) = files s (reportPath net ts))
       \<and> (\<forall>p. p \<noteq> abiPath \<longrightarrow> files (snd (deploy w s)) p = files s p)"
proof -
  have other: "files (snd (deploy w s)) p = files s p" if p: "p \<noteq> abiPath" for p
  proof (cases "networkInfo_name w")
    case (Inl e)
    then show ?thesis by (simp add: deploy_def)
  next
    case (Inr name)
    show ?thesis
    proof (cases "loadTokenConfig w")
      case (Exit c)
      with Inr show ?thesis by (simp add: deploy_def)
    next
      case (Throw e)
      with Inr show ?thesis by (simp add: deploy_def)
    next
      case (Return cfg)
      obtain r s1 where c: "compileContract w s = (r, s1)"
        by (cases "compileContract w s")
      then have s1: "files s1 p = files s p"
        using compileContract_other_path [OF p, of w s] by simp
      show ?thesis
      proof (cases r)
        case (Exit c')
        with Inr Return c s1 show ?thesis by (simp add: deploy_def)
      next
        case (Throw e)
        with Inr Return c s1 show ?thesis by (simp add: deploy_def)
      next
        case r: (Return u)
        obtain r2 s2 where l: "deploy_loop (chain_client w) (truthy (continueOnError cfg))
            (tokens cfg) s1 = (r2, s2)"
          by (cases "deploy_loop (chain_client w) (truthy (continueOnError cfg)) (tokens cfg) s1")
        then have s2: "files s2 = files s1"
          using deploy_loop_keeps_files
            [of "chain_client w" "truthy (continueOnError cfg)" "tokens cfg" s1] by simp
        show ?thesis
        proof (cases r2)
          case (Inl e)
          with Inr Return c r l s1 s2 show ?thesis by (simp add: deploy_def)
        next
          case r2: (Inr u2)
          show ?thesis
          proof (cases "deployments s2 = []")
            case True
            with Inr Return c r l r2 s1 s2 show ?thesis by (simp add: deploy_def)
          next
            case False
            obtain r3 s3 where sv: "saveDeploymentReport w (network_or (network cfg) name) s2 = (r3, s3)"
              by (cases "saveDeploymentReport w (network_or (network cfg) name) s2")
            then have "deployments s3 = deployments s2"
              using saveDeploymentReport_keeps_deployments
                [of w "network_or (network cfg) name" s2] by simp
            with False have "deployments s3 \<noteq> []" by simp
            moreover have "snd (deploy w s) = s3"
              using Inr Return c r l r2 False sv by (cases r3) (simp_all add: deploy_def)
            ultimately show ?thesis using assms by simp
          qed
        qed
      qed
    qed
  qed
  then show ?thesis by simp
qed


lemma deploy_only_B:
  "deployments (snd (deploy world_only_B state_prev)) = []"
proof -
  let ?sc = "state_prev\<lparr>files := (files state_prev)(abiPath \<mapsto> ''[]'')\<rparr>"
  have c: "compileContract world_only_B state_prev = (Return (), ?sc)"
    by (simp add: compileContract_def world_only_B_def world_with_def writeFileSync_def)
  obtain s' where d: "deployToken chain_B_fails tokenB ?sc = (Inl (Error ''insufficient funds''), s')"
    using run_B_alone [of ?sc] by (cases "deployToken chain_B_fails tokenB ?sc") simp
  then have "deployments s' = deployments ?sc"
    using deployToken_error_keeps_deployments [of chain_B_fails tokenB ?sc] by simp
  then have e: "deployments s' = []"
    by (simp add: state_prev_def)
  have "loadTokenConfig world_only_B
      = Return \<lparr>network = None, continueOnError = Some True, tokens = [tokenB]\<rparr>"
    by (simp add: loadTokenConfig_def world_only_B_def world_with_def validateTokenConfig_def
        holders_of_def tokenB_def)
  then have "deploy world_only_B state_prev = (None, s')"
    using c d e by (simp add: deploy_def world_only_B_def world_with_def truthy_def)
  with e show ?thesis by simp
qed

theorem deploy_no_records_no_report_witness:
  "deployments (snd (deploy world_only_B state_prev)) = []
   \<and> files (snd (deploy world_only_B state_prev)) addressPath = Some ''{ old }''"
  using deploy_no_records_no_report [OF deploy_only_B] deploy_only_B
  by (simp add: state_prev_def)

section \<open>Scaling of decimal strings\<close>

lemma foldl_digits:
  "foldl (\<lambda>acc c. 10 * acc + digit_val c) a ds
     = a * 10 ^ length ds + foldl (\<lambda>acc c. 10 * acc + digit_val c) 0 ds"
proof -
  define f where "f = (\<lambda>acc c. 10 * acc + digit_val c)"
  have "foldl f a ds = a * 10 ^ length ds + foldl f 0 ds"
  proof (induction ds arbitrary: a)
    case Nil
    show ?case by simp
  next
    case (Cons c ds)
    have "foldl f a (c # ds) = foldl f (10 * a + digit_val c) ds"
      by (simp add: f_def)
    also have "\<dots> = (10 * a + digit_val c) * 10 ^ length ds + foldl f 0 ds"
      by (rule Cons.IH)
    also have "\<dots> = a * 10 ^ length (c # ds) + (digit_val c * 10 ^ length ds + foldl f 0 ds)"
      by (simp add: algebra_simps)
    also have "digit_val c * 10 ^ length ds + foldl f 0 ds = foldl f (digit_val c) ds"
      by (rule Cons.IH [symmetric])
    also have "foldl f (digit_val c) ds = foldl f 0 (c # ds)"
      by (simp add: f_def)
    finally show ?case .
  qed
  then show ?thesis by (simp add: f_def)
qed

lemma digits_val_append:
  "digits_val (xs @ ys) = digits_val xs * 10 ^ length ys + digits_val ys"
  unfolding digits_val_def by (simp add: foldl_digits [of "foldl _ _ xs"])

lemma digits_val_zeros [simp]: "digits_val (replicate k (CHR ''0'')) = 0"
  by (induction k) (simp_all add: digits_val_def digit_val_def foldl_digits [of "digit_val _"])

lemma digits_val_padded:
  "digits_val (whole @ fraction @ replicate k (CHR ''0''))
     = digits_val whole * 10 ^ (length fraction + k) + digits_val fraction * 10 ^ k"
  by (simp add: digits_val_append power_add algebra_simps)

lemma parseUnits_parts:
  "parseUnits v dec =
     (let whole = takeWhile is_digit v; fraction = tl (dropWhile is_digit v) in
      if dec < 0 \<or> \<not> is_decimal v then Inl (Error ''invalid decimal string'')
      else if nat dec < length fraction then Inl (Error ''too many decimals'')
      else Inr (digits_val (whole @ fraction @ replicate (nat dec - length fraction) (CHR ''0''))))"
proof (cases "dropWhile is_digit v")
  case Nil
  show ?thesis
    unfolding parseUnits_def is_decimal_def Let_def Nil by simp
next
  case (Cons c cs)
  then have "\<not> is_digit c"
    by (metis hd_dropWhile list.distinct(1) list.sel(1))
  then show ?thesis
    unfolding parseUnits_def is_decimal_def Let_def Cons by auto
qed

lemma scale_exact:
  assumes "l \<le> d"
  shows "(of_nat (W * 10 ^ d + F * 10 ^ (d - l)) :: rat) = (of_nat W + of_nat F / 10 ^ l) * 10 ^ d"
proof -
  from assms have "(10::rat) ^ d = 10 ^ l * 10 ^ (d - l)"
    by (simp add: power_add [symmetric])
  then show ?thesis
    by (simp add: field_simps)
qed

lemma parseUnits_Inr_exact:
  assumes "parseUnits v (int d) = Inr n"
  shows "of_nat n = decimal_value v * 10 ^ d"
proof -
  let ?whole = "takeWhile is_digit v" and ?fraction = "tl (dropWhile is_digit v)"
  from assms have le: "length ?fraction \<le> d"
    and n: "n = digits_val (?whole @ ?fraction @ replicate (d - length ?fraction) (CHR ''0''))"
    by (auto simp: parseUnits_parts Let_def split: if_splits)
  from n le have "n = digits_val ?whole * 10 ^ d + digits_val ?fraction * 10 ^ (d - length ?fraction)"
    by (simp add: digits_val_padded)
  with le show ?thesis
    by (simp only: scale_exact decimal_value_def fraction_digits_def)
qed

lemma parseUnits_accepts:
  assumes "is_decimal v" "fraction_digits v \<le> d"
  shows "\<exists>n. parseUnits v (int d) = Inr n"
  using assms by (simp add: parseUnits_parts Let_def fraction_digits_def)


lemma after_deploy_exact:
  assumes "t_decimals token = int d" "after_deploy token c"
  shows "exact_transfer token c"
proof (cases c)
  case (Transfer contract to amount)
  with assms(2) obtain h where h: "h \<in> set (holders_of token)" "to = h_address h"
    "parseUnits (h_amount h) (t_decimals token) = Inr amount"
    by (auto simp: after_deploy_def)
  from h(3) assms(1) have "of_nat amount = decimal_value (h_amount h) * 10 ^ d"
    by (simp add: parseUnits_Inr_exact)
  with h Transfer assms(1) show ?thesis
    by (auto simp: exact_transfer_def)
qed (use assms(2) in \<open>simp_all add: after_deploy_def exact_transfer_def\<close>)

lemma parse_tenth: "parseUnits ''0.1'' 18 = Inr 100000000000000000"
  by (simp add: parseUnits_def is_digit_def digits_val_def digit_val_def)

lemma valid_strings_accepted:
  assumes "t_decimals token = int d" "is_decimal (t_initialSupply token)"
    "fraction_digits (t_initialSupply token) \<le> d" "list_all (valid_amount d) (holders_of token)"
  shows "strings_accepted token"
proof -
  from assms(1-3) have "\<not> isl (parseUnits (t_initialSupply token) (t_decimals token))"
    using parseUnits_accepts [of "t_initialSupply token" d] by auto
  moreover have "\<not> isl (parseUnits (h_amount h) (t_decimals token))"
    if "h \<in> set (holders_of token)" for h
  proof -
    from that assms(4) have "is_decimal (h_amount h)" "fraction_digits (h_amount h) \<le> d"
      by (simp_all add: list_all_iff valid_amount_def)
    then show ?thesis
      using parseUnits_accepts [of "h_amount h" d] assms(1) by auto
  qed
  ultimately show ?thesis
    by (simp add: strings_accepted_def list_all_iff)
qed

lemma accepted_run_transfers:
  assumes "t_decimals token = int d" "strings_accepted token"
    "\<not> step_fails ch (calls s) (requests (deployToken ch token) s)"
  shows "\<exists>a. fst (deployToken ch token s) = Inr a"
    and "list_all2 (holder_transfer d) (holders_of token)
           (transfers (requests (deployToken ch token) s))"
proof -
  from assms(2,3) have "\<not> isl (fst (deployToken ch token s))"
    using throw_has_failed_step by blast
  then obtain a where a: "fst (deployToken ch token s) = Inr a"
    by (cases "fst (deployToken ch token s)") simp_all
  then show "\<exists>a. fst (deployToken ch token s) = Inr a" ..
  from a have "deployToken ch token s = (Inr a, snd (deployToken ch token s))"
    by (simp add: prod_eq_iff)
  then have "list_all2 (\<lambda>h p. fst p = h_address h
          \<and> parseUnits (h_amount h) (t_decimals token) = Inr (snd p))
       (holders_of token) (transfers (requests (deployToken ch token) s))"
    by (rule deployToken_success_transfers)
  then show "list_all2 (holder_transfer d) (holders_of token)
           (transfers (requests (deployToken ch token) s))"
  proof (rule list_all2_mono)
    fix h :: holder and p :: "string \<times> nat"
    assume "fst p = h_address h \<and> parseUnits (h_amount h) (t_decimals token) = Inr (snd p)"
    with assms(1) show "holder_transfer d h p"
      by (simp add: holder_transfer_def parseUnits_Inr_exact)
  qed
qed

text \<open>
  C2. A non-negative decimal string \<open>v\<close> with at most \<open>d\<close> fractional digits is
  accepted by \<open>parseUnits\<close>, and the integer returned is the rational number that \<open>v\<close>
  denotes times \<open>10^d\<close>, exactly; \<open>"0.1"\<close> at 18 decimals gives 100000000000000000. For
  a token whose supply string is \<open>v\<close> and whose decimals are \<open>d\<close>, this integer is the
  supply argument of the deployment request, and every transfer request that follows
  carries the amount of one of the token's holders, scaled exactly in the same way. When
  moreover the amounts of the holders are such strings and the chain client answers no
  request with an error, the token is deployed and the transfers requested are those of
  the holders, one for each holder and in the order of the list, each to the holder's
  address and of the holder's amount times \<open>10^d\<close>.
\<close>

theorem parseUnits_scales_exactly:
  assumes "is_decimal v" "fraction_digits v \<le> d"
  shows "(\<exists>n. parseUnits v (int d) = Inr n \<and> of_nat n = decimal_value v * 10 ^ d)
       \<and> parseUnits ''0.1'' 18 = Inr 100000000000000000
       \<and> (t_initialSupply token = v \<and> t_decimals token = int d \<longrightarrow>
            (\<exists>n g rest. calls (snd (deployToken ch token s))
                 = calls s @ Deploy (constructor_args token n) g # rest
               \<and> ca_initialSupply (constructor_args token n) = n
               \<and> of_nat n = decimal_value v * 10 ^ d
               \<and> list_all (exact_transfer token) rest))
       \<and> (t_initialSupply token = v \<and> t_decimals token = int d
            \<and> list_all (valid_amount d) (holders_of token)
            \<and> \<not> step_fails ch (calls s) (requests (deployToken ch token) s) \<longrightarrow>
            (\<exists>a. fst (deployToken ch token s) = Inr a)
            \<and> list_all2 (holder_transfer d) (holders_of token)
                 (transfers (requests (deployToken ch token) s)))"
proof (intro conjI impI)
  from assms obtain n where n: "parseUnits v (int d) = Inr n"
    using parseUnits_accepts by blast
  then have e: "of_nat n = decimal_value v * 10 ^ d"
    by (rule parseUnits_Inr_exact)
  from n e show "\<exists>n. parseUnits v (int d) = Inr n \<and> of_nat n = decimal_value v * 10 ^ d"
    by blast
  show "parseUnits ''0.1'' 18 = Inr 100000000000000000"
    by (rule parse_tenth)
  {
    assume t: "t_initialSupply token = v \<and> t_decimals token = int d"
    with n have "parseUnits (t_initialSupply token) (t_decimals token) = Inr n"
      by simp
    from deployToken_calls [OF this, of ch s] obtain rest where
      rest: "calls (snd (deployToken ch token s))
         = calls s @ Deploy (constructor_args token n) 3000000 # rest"
      "list_all (after_deploy token) rest"
      by blast
    from rest(2) t have "list_all (exact_transfer token) rest"
      by (auto simp: list_all_iff intro: after_deploy_exact)
    moreover have "ca_initialSupply (constructor_args token n) = n"
      by (simp add: constructor_args_def)
    ultimately show "\<exists>n g rest. calls (snd (deployToken ch token s))
                   = calls s @ Deploy (constructor_args token n) g # rest
                 \<and> ca_initialSupply (constructor_args token n) = n
                 \<and> of_nat n = decimal_value v * 10 ^ d
                 \<and> list_all (exact_transfer token) rest"
      using rest(1) e by blast
  }
  assume h: "t_initialSupply token = v \<and> t_decimals token = int d
            \<and> list_all (valid_amount d) (holders_of token)
            \<and> \<not> step_fails ch (calls s) (requests (deployToken ch token) s)"
  with assms have acc: "strings_accepted token"
    by (intro valid_strings_accepted [of token d]) simp_all
  from h acc show "\<exists>a. fst (deployToken ch token s) = Inr a"
    by (intro accepted_run_transfers(1) [of token d]) simp_all
  from h acc show "list_all2 (holder_transfer d) (holders_of token)
                 (transfers (requests (deployToken ch token) s))"
    by (intro accepted_run_transfers(2)) simp_all
qed

lemma run_A_requests:
  "requests (deployToken chain_B_fails tokenA) state0
     = [Deploy (constructor_args tokenA 1000000000000000000000) 3000000,
        WaitForDeployment ''0xtxAAA'', GetAddress ''0xtxAAA'', WaitDeploymentTx ''0xtxAAA'',
        Transfer ''0xaddrAAA'' ''0x01'' 500000000000000000, WaitTransfer ''0xtransfer'']"
  by (simp add: requests_def run_defs tokenA_def chain_B_fails_def state0_def)

theorem parseUnits_scales_exactly_witness:
  "is_decimal ''1000'' \<and> fraction_digits ''1000'' \<le> 18
   \<and> (\<exists>n. parseUnits ''1000'' 18 = Inr n \<and> of_nat n = decimal_value ''1000'' * 10 ^ 18)
   \<and> (\<exists>n g rest. calls (snd (deployToken chain_B_fails tokenA state0))
          = calls state0 @ Deploy (constructor_args tokenA n) g # rest
        \<and> of_nat n = decimal_value ''1000'' * 10 ^ 18
        \<and> list_all (exact_transfer tokenA) rest)
   \<and> holders_of tokenA = [\<lparr>h_address = ''0x01'', h_amount = ''0.5''\<rparr>]
   \<and> list_all (valid_amount 18) (holders_of tokenA)
   \<and> \<not> step_fails chain_B_fails (calls state0) (requests (deployToken chain_B_fails tokenA) state0)
   \<and> transfers (requests (deployToken chain_B_fails tokenA) state0)
       = [(''0x01'', 500000000000000000)]
   \<and> of_nat 500000000000000000 = decimal_value ''0.5'' * 10 ^ 18"
proof -
  have h: "is_decimal ''1000''" "fraction_digits ''1000'' \<le> 18"
    by (simp_all add: is_decimal_def fraction_digits_def is_digit_def)
  have t: "t_initialSupply tokenA = ''1000'' \<and> t_decimals tokenA = int 18"
    by (simp add: tokenA_def)
  have hs: "holders_of tokenA = [\<lparr>h_address = ''0x01'', h_amount = ''0.5''\<rparr>]"
    by (simp add: holders_of_def tokenA_def)
  have v: "list_all (valid_amount 18) (holders_of tokenA)"
    unfolding hs by (simp add: valid_amount_def is_decimal_def fraction_digits_def is_digit_def)
  have f: "\<not> step_fails chain_B_fails (calls state0)
      (requests (deployToken chain_B_fails tokenA) state0)"
    unfolding run_A_requests
    by (simp add: refused_def chain_B_fails_def constructor_args_def tokenA_def)
  have tr: "transfers (requests (deployToken chain_B_fails tokenA) state0)
       = [(''0x01'', 500000000000000000)]"
    unfolding run_A_requests by simp
  note inst = parseUnits_scales_exactly [OF h, of tokenA chain_B_fails state0]
  from inst t v f have "list_all2 (holder_transfer 18) (holders_of tokenA)
      (transfers (requests (deployToken chain_B_fails tokenA) state0))"
    by blast
  then have x: "of_nat 500000000000000000 = decimal_value ''0.5'' * 10 ^ 18"
    unfolding hs tr by (simp add: holder_transfer_def)
  from inst t have "(\<exists>n. parseUnits ''1000'' 18 = Inr n \<and> of_nat n = decimal_value ''1000'' * 10 ^ 18)
   \<and> (\<exists>n g rest. calls (snd (deployToken chain_B_fails tokenA state0))
          = calls state0 @ Deploy (constructor_args tokenA n) g # rest
        \<and> of_nat n = decimal_value ''1000'' * 10 ^ 18
        \<and> list_all (exact_transfer tokenA) rest)"
    by auto
  with h hs v f tr x show ?thesis by blast
qed

section \<open>The address map\<close>

lemma insert_index_keys:
  "set (map fst (insert_index k v ps)) = insert k (set (map fst ps))"
  by (induction ps) auto

lemma insert_index_distinct:
  "k \<notin> fst ` set ps \<Longrightarrow> distinct (map fst ps) \<Longrightarrow> distinct (map fst (insert_index k v ps))"
proof (induction ps)
  case Nil
  show ?case by simp
next
  case (Cons p ps)
  then show ?case
    using insert_index_keys [of k v ps] by auto
qed

lemma insert_index_map_of:
  "k \<notin> fst ` set ps \<Longrightarrow> map_of (insert_index k v ps) = (map_of ps)(k \<mapsto> v)"
proof (induction ps)
  case Nil
  show ?case by simp
next
  case (Cons p ps)
  then show ?case
    by (cases p) (auto simp: fun_upd_twist)
qed

lemma update_keys:
  "map fst (map (\<lambda>p. if fst p = k then (k, v) else p) ps) = map fst ps"
  by (induction ps) auto

lemma update_map_of_other:
  "x \<noteq> k \<Longrightarrow> map_of (map (\<lambda>p. if fst p = k then (k, v) else p) ps) x = map_of ps x"
  by (induction ps) auto

lemma update_map_of_key:
  "k \<in> fst ` set ps \<Longrightarrow> map_of (map (\<lambda>p. if fst p = k then (k, v) else p) ps) k = Some v"
  by (induction ps) auto

lemma update_map_of:
  assumes "k \<in> fst ` set ps"
  shows "map_of (map (\<lambda>p. if fst p = k then (k, v) else p) ps) = (map_of ps)(k \<mapsto> v)"
proof
  fix x
  show "map_of (map (\<lambda>p. if fst p = k then (k, v) else p) ps) x = ((map_of ps)(k \<mapsto> v)) x"
    using assms by (cases "x = k") (simp_all add: update_map_of_other update_map_of_key)
qed

lemma append_map_of:
  assumes "k \<notin> fst ` set ps"
  shows "map_of (ps @ [(k, v)]) = (map_of ps)(k \<mapsto> v)"
proof
  fix x
  from assms have "map_of ps k = None"
    by (simp add: map_of_eq_None_iff)
  then show "map_of (ps @ [(k, v)]) x = ((map_of ps)(k \<mapsto> v)) x"
    by (cases "map_of ps x") (auto simp: map_add_def)
qed

lemma js_set_distinct:
  assumes "distinct (map fst ps)"
  shows "distinct (map fst (js_set ps k v))"
proof -
  have "distinct (map fst (map (\<lambda>p. if fst p = k then (k, v) else p) ps))"
    using assms by (simp only: update_keys)
  moreover have "k \<notin> fst ` set ps \<Longrightarrow> distinct (map fst (insert_index k v ps))"
    using assms by (simp add: insert_index_distinct)
  moreover have "k \<notin> fst ` set ps \<Longrightarrow> distinct (map fst (ps @ [(k, v)]))"
    using assms by auto
  ultimately show ?thesis
    using assms unfolding js_set_def by presburger
qed

lemma js_set_map_of:
  "map_of (js_set ps k v) = (if k = ''__proto__'' then map_of ps else (map_of ps)(k \<mapsto> v))"
  unfolding js_set_def
  using update_map_of [of k ps v] insert_index_map_of [of k ps v] append_map_of [of k ps v]
  by presburger

lemma js_set_keys:
  "set (map fst (js_set ps k v))
     = (if k = ''__proto__'' then set (map fst ps) else insert k (set (map fst ps)))"
proof -
  have "k \<in> fst ` set ps \<Longrightarrow>
      set (map fst (map (\<lambda>p. if fst p = k then (k, v) else p) ps)) = insert k (set (map fst ps))"
    by (simp only: update_keys) auto
  moreover have "set (map fst (ps @ [(k, v)])) = insert k (set (map fst ps))"
    by simp
  ultimately show ?thesis
    unfolding js_set_def using insert_index_keys [of k v ps] by presburger
qed

lemma find_append_cases:
  "find P (xs @ ys) = (case find P xs of None \<Rightarrow> find P ys | Some x \<Rightarrow> Some x)"
  by (induction xs) simp_all

text \<open>The \<open>forEach\<close> from any object built so far.\<close>

lemma addressMap_foldl_distinct:
  "distinct (map fst m) \<Longrightarrow>
   distinct (map fst (foldl (\<lambda>m d. js_set m (d_symbol d) (addressMap_entry d)) m ds))"
  by (induction ds arbitrary: m) (simp_all add: js_set_distinct)

lemma addressMap_foldl_keys:
  "set (map fst (foldl (\<lambda>m d. js_set m (d_symbol d) (addressMap_entry d)) m ds))
     = set (map fst m) \<union> (d_symbol ` set ds - {''__proto__''})"
proof (induction ds arbitrary: m)
  case Nil
  show ?case by simp
next
  case (Cons d ds)
  show ?case
    unfolding foldl_Cons Cons.IH js_set_keys by auto
qed

lemma addressMap_foldl_map_of:
  "map_of (foldl (\<lambda>m d. js_set m (d_symbol d) (addressMap_entry d)) m ds) smb
     = (case find (\<lambda>d. d_symbol d = smb) (rev ds) of
          Some d \<Rightarrow> if smb = ''__proto__'' then map_of m smb else Some (addressMap_entry d)
        | None \<Rightarrow> map_of m smb)"
proof (induction ds arbitrary: m)
  case Nil
  show ?case by simp
next
  case (Cons d ds)
  show ?case
    unfolding foldl_Cons Cons.IH
    by (auto simp: js_set_map_of find_append_cases split: option.splits)
qed

text \<open>
  The address map of a record list: its keys are distinct, they are the symbols of the
  records other than \<open>__proto__\<close>, and a symbol other than \<open>__proto__\<close> maps to the
  entry of the last record that has it.
\<close>

lemma addressMap_entries:
  "distinct (map fst (addressMap ds))
   \<and> set (map fst (addressMap ds)) = d_symbol ` set ds - {''__proto__''}
   \<and> (smb \<noteq> ''__proto__'' \<longrightarrow>
        map_of (addressMap ds) smb
          = map_option addressMap_entry (find (\<lambda>d. d_symbol d = smb) (rev ds)))"
  unfolding addressMap_def
  using addressMap_foldl_distinct [of "[]" ds] addressMap_foldl_keys [of "[]" ds]
    addressMap_foldl_map_of [of "[]" ds smb]
  by (auto split: option.splits)

text \<open>
  C5. The claim gives the address map one entry per distinct symbol. A token with the
  symbol \<open>__proto__\<close> deploys like any other and gets its record, but the assignment
  \<open>addressMap[d.symbol] = ...\<close> creates no property for it: the map of this record alone
  is the empty object, written as \<open>{}\<close>, and next to another record only the other
  symbol is listed.
\<close>

theorem addressMap_drops_proto:
  "deployments (snd (deployToken chain_B_fails (tokenA\<lparr>t_symbol := ''__proto__''\<rparr>) state_c))
     = [record_proto\<lparr>d_address := ''0xaddr__proto__'', d_deploymentTx := ''0xtx__proto__''\<rparr>]
   \<and> addressMap [record_proto] = []
   \<and> JSON_stringify (JObj (addressMap [record_proto])) = ''{}''
   \<and> addressMap [record_A, record_proto] = [(''AAA'', addressMap_entry record_A)]"
  by (simp add: addressMap_def js_set_def record_proto_def record_A_def JSON_stringify_def
      run_defs tokenA_def chain_B_fails_def state_c_def state0_def)

section \<open>The report, written and read back\<close>

subsection \<open>Decimal digits of a big integer\<close>

lemma mod_ten_cases:
  "(n::nat) mod 10 \<in> {0, 1, 2, 3, 4, 5, 6, 7, 8, 9}"
proof -
  have "n mod 10 < 10" by simp
  then have "n mod 10 = 0 \<or> n mod 10 = 1 \<or> n mod 10 = 2 \<or> n mod 10 = 3 \<or> n mod 10 = 4
      \<or> n mod 10 = 5 \<or> n mod 10 = 6 \<or> n mod 10 = 7 \<or> n mod 10 = 8 \<or> n mod 10 = 9"
    by arith
  then show ?thesis by blast
qed

lemma digit_char_is_digit [simp]: "is_digit (digit_char n)"
proof -
  have "n mod 10 \<in> {0, 1, 2, 3, 4, 5, 6, 7, 8, 9}" by (rule mod_ten_cases)
  then show ?thesis
    by (auto simp: digit_char_def is_digit_def)
qed

lemma digit_val_digit_char [simp]: "digit_val (digit_char n) = n mod 10"
proof -
  have "n mod 10 \<in> {0, 1, 2, 3, 4, 5, 6, 7, 8, 9}" by (rule mod_ten_cases)
  then show ?thesis
    by (auto simp: digit_char_def digit_val_def)
qed

lemma digit_char_zero: "digit_char n = CHR ''0'' \<longleftrightarrow> n mod 10 = 0"
proof -
  have "n mod 10 \<in> {0, 1, 2, 3, 4, 5, 6, 7, 8, 9}" by (rule mod_ten_cases)
  then show ?thesis
    by (auto simp: digit_char_def)
qed

lemmas bigint_toString_simps = bigint_toString.simps

declare bigint_toString.simps [simp del]

lemma bigint_toString_digits: "list_all is_digit (bigint_toString n)"
proof (induction n rule: bigint_toString.induct)
  case (1 n)
  then show ?case
    by (subst bigint_toString_simps) simp
qed

lemma bigint_toString_nonempty [simp]: "bigint_toString n \<noteq> []"
  by (subst bigint_toString_simps) simp

lemma digits_val_single [simp]: "digits_val [c] = digit_val c"
  by (simp add: digits_val_def)

lemma digits_val_bigint_toString [simp]: "digits_val (bigint_toString n) = n"
proof (induction n rule: bigint_toString.induct)
  case (1 n)
  show ?case
  proof (cases "n < 10")
    case True
    then show ?thesis
      by (subst bigint_toString_simps) simp
  next
    case False
    with 1 have "digits_val (bigint_toString (n div 10)) = n div 10" by simp
    with False show ?thesis
      by (subst bigint_toString_simps) (simp add: digits_val_append)
  qed
qed

lemma bigint_toString_hd: "hd (bigint_toString n) = CHR ''0'' \<longleftrightarrow> n = 0"
proof (induction n rule: bigint_toString.induct)
  case (1 n)
  show ?case
  proof (cases "n < 10")
    case True
    then show ?thesis
      by (subst bigint_toString_simps) (simp add: digit_char_zero)
  next
    case False
    with 1 have "hd (bigint_toString (n div 10)) = CHR ''0'' \<longleftrightarrow> n div 10 = 0" by simp
    with False show ?thesis
      by (subst bigint_toString_simps) simp
  qed
qed

lemma bigint_toString_no_leading_zero:
  "1 < length (bigint_toString n) \<Longrightarrow> hd (bigint_toString n) \<noteq> CHR ''0''"
proof -
  assume a: "1 < length (bigint_toString n)"
  have "n \<noteq> 0"
  proof
    assume "n = 0"
    then have "bigint_toString n = [digit_char 0]"
      by (subst bigint_toString_simps) simp
    with a show False by simp
  qed
  then show ?thesis by (simp add: bigint_toString_hd)
qed

subsection \<open>Numbers and strings\<close>

lemma takeWhile_digits:
  "list_all is_digit ds \<Longrightarrow> number_stop rest \<Longrightarrow> takeWhile is_digit (ds @ rest) = ds"
  by (cases rest) (auto simp: number_stop_def list_all_iff takeWhile_append2)

lemma dropWhile_digits:
  "list_all is_digit ds \<Longrightarrow> number_stop rest \<Longrightarrow> dropWhile is_digit (ds @ rest) = rest"
  by (cases rest) (auto simp: number_stop_def list_all_iff dropWhile_append2)

lemma minus_not_digit [simp]: "\<not> is_digit (CHR ''-'')"
  by (simp add: is_digit_def)

lemma hd_bigint_toString_not_minus: "hd (bigint_toString n @ rest) \<noteq> CHR ''-''"
proof -
  have "is_digit (hd (bigint_toString n))"
    using bigint_toString_digits [of n] bigint_toString_nonempty [of n]
    by (cases "bigint_toString n") (auto simp: list_all_iff)
  then show ?thesis
    using bigint_toString_nonempty [of n] by (auto simp: hd_append)
qed

lemma parse_number_unsigned:
  assumes "number_stop rest"
  shows "parse_number (bigint_toString n @ rest) = Some (JNum (int n), rest)"
proof -
  let ?ds = "bigint_toString n"
  have t: "takeWhile is_digit (?ds @ rest) = ?ds" and d: "dropWhile is_digit (?ds @ rest) = rest"
    using assms bigint_toString_digits by (simp_all add: takeWhile_digits dropWhile_digits)
  have z: "\<not> (1 < length ?ds \<and> hd ?ds = CHR ''0'')"
    using bigint_toString_no_leading_zero [of n] by blast
  have s: "\<not> (rest \<noteq> [] \<and> (hd rest = CHR ''.'' \<or> hd rest = CHR ''e'' \<or> hd rest = CHR ''E''))"
    using assms by (cases rest) (auto simp: number_stop_def)
  show ?thesis
    unfolding parse_number_def Let_def
    using t d z s hd_bigint_toString_not_minus [of n rest] by simp
qed

lemma parse_number_negative:
  assumes "number_stop rest"
  shows "parse_number (CHR ''-'' # bigint_toString n @ rest) = Some (JNum (- int n), rest)"
proof -
  let ?ds = "bigint_toString n"
  have t: "takeWhile is_digit (?ds @ rest) = ?ds" and d: "dropWhile is_digit (?ds @ rest) = rest"
    using assms bigint_toString_digits by (simp_all add: takeWhile_digits dropWhile_digits)
  have z: "\<not> (1 < length ?ds \<and> hd ?ds = CHR ''0'')"
    using bigint_toString_no_leading_zero [of n] by blast
  have s: "\<not> (rest \<noteq> [] \<and> (hd rest = CHR ''.'' \<or> hd rest = CHR ''e'' \<or> hd rest = CHR ''E''))"
    using assms by (cases rest) (auto simp: number_stop_def)
  show ?thesis
    unfolding parse_number_def Let_def
    using t d z s by simp
qed

lemma parse_number_toString:
  assumes "number_stop rest"
  shows "parse_number (number_toString n @ rest) = Some (JNum n, rest)"
proof (cases "n < 0")
  case True
  then show ?thesis
    using parse_number_negative [OF assms, of "nat (- n)"] by (simp add: number_toString_def)
next
  case False
  then show ?thesis
    using parse_number_unsigned [OF assms, of "nat n"] by (simp add: number_toString_def)
qed

lemma number_toString_head:
  "\<exists>c r. number_toString n = c # r \<and> (c = CHR ''-'' \<or> is_digit c)"
proof (cases "n < 0")
  case True
  then show ?thesis by (simp add: number_toString_def)
next
  case False
  obtain c r where cr: "bigint_toString (nat n) = c # r"
    using bigint_toString_nonempty [of "nat n"] by (cases "bigint_toString (nat n)") auto
  with bigint_toString_digits [of "nat n"] have "is_digit c" by simp
  with cr False show ?thesis by (simp add: number_toString_def)
qed

lemma below_16_cases:
  assumes "(k::nat) < 16"
  shows "k \<in> {0, 1, 2, 3, 4, 5, 6, 7, 8, 9, 10, 11, 12, 13, 14, 15}"
proof -
  from assms have "k = 0 \<or> k = 1 \<or> k = 2 \<or> k = 3 \<or> k = 4 \<or> k = 5 \<or> k = 6 \<or> k = 7 \<or> k = 8
      \<or> k = 9 \<or> k = 10 \<or> k = 11 \<or> k = 12 \<or> k = 13 \<or> k = 14 \<or> k = 15"
    by arith
  then show ?thesis by blast
qed

lemma hex_val_hex_char:
  assumes "k < 16"
  shows "hex_val (hex_char k) = Some k"
  using below_16_cases [OF assms]
  by (auto simp: hex_val_def hex_char_def is_digit_def digit_val_def)

lemma hex_val_zero [simp]: "hex_val (CHR ''0'') = Some 0"
  by (simp add: hex_val_def is_digit_def digit_val_def)

lemma parse_chars_quote_char:
  "parse_chars acc (quote_char c @ tail) = parse_chars (acc @ [c]) tail"
proof -
  consider (named) "c \<in> {CHR 0x22, CHR 0x5C, CHR 0x08, CHR 0x09, CHR 0x0A, CHR 0x0C, CHR 0x0D}"
    | (control) "c \<notin> {CHR 0x22, CHR 0x5C, CHR 0x08, CHR 0x09, CHR 0x0A, CHR 0x0C, CHR 0x0D}"
        "(of_char c :: nat) < 32"
    | (plain) "c \<notin> {CHR 0x22, CHR 0x5C, CHR 0x08, CHR 0x09, CHR 0x0A, CHR 0x0C, CHR 0x0D}"
        "\<not> (of_char c :: nat) < 32"
    by blast
  then show ?thesis
  proof cases
    case named
    then show ?thesis
      by (auto simp: quote_char_def)
  next
    case control
    let ?n = "of_char c :: nat"
    have h: "hex_val (hex_char (?n div 16)) = Some (?n div 16)"
      "hex_val (hex_char (?n mod 16)) = Some (?n mod 16)"
      using control(2) by (simp_all add: hex_val_hex_char)
    have "char_of (16 * (?n div 16) + ?n mod 16) = c"
      by simp
    with control h show ?thesis
      by (simp add: quote_char_def)
  next
    case plain
    then show ?thesis
      by (simp add: quote_char_def)
  qed
qed

lemma parse_chars_quoted:
  "parse_chars acc (concat (map quote_char s) @ CHR 0x22 # rest) = Some (acc @ s, rest)"
proof (induction s arbitrary: acc)
  case Nil
  show ?case by simp
next
  case (Cons c s)
  have "parse_chars acc (concat (map quote_char (c # s)) @ CHR 0x22 # rest)
      = parse_chars acc (quote_char c @ (concat (map quote_char s) @ CHR 0x22 # rest))"
    by simp
  also have "\<dots> = parse_chars (acc @ [c]) (concat (map quote_char s) @ CHR 0x22 # rest)"
    by (rule parse_chars_quote_char)
  also have "\<dots> = Some ((acc @ [c]) @ s, rest)"
    by (rule Cons.IH)
  finally show ?case by simp
qed

lemma parse_chars_QuoteJSONString:
  "QuoteJSONString s @ rest = CHR 0x22 # tail \<Longrightarrow> parse_chars [] tail = Some (s, rest)"
  using parse_chars_quoted [of "[]" s rest] by (simp add: QuoteJSONString_def)

subsection \<open>Values\<close>

lemma skip_ws_prefix:
  "list_all is_ws w \<Longrightarrow> \<not> is_ws c \<Longrightarrow> skip_ws (w @ c # s) = c # s"
  by (induction w) (simp_all add: skip_ws_def)

lemma skip_ws_nonws [simp]: "\<not> is_ws c \<Longrightarrow> skip_ws (c # s) = c # s"
  by (simp add: skip_ws_def)

lemma is_ws_simps [simp]:
  "is_ws (CHR 0x0A)" "is_ws (CHR '' '')"
  "\<not> is_ws (CHR ''{'')" "\<not> is_ws (CHR ''}'')" "\<not> is_ws (CHR ''['')" "\<not> is_ws (CHR '']'')"
  "\<not> is_ws (CHR '','')" "\<not> is_ws (CHR '':'')" "\<not> is_ws (CHR 0x22)" "\<not> is_ws (CHR ''-'')"
  "\<not> is_ws (CHR ''n'')" "\<not> is_ws (CHR ''t'')" "\<not> is_ws (CHR ''f'')"
  by (simp_all add: is_ws_def)

lemma digit_not_ws: "is_digit c \<Longrightarrow> \<not> is_ws c"
  by (auto simp: is_digit_def is_ws_def)

lemma digit_not_special:
  "is_digit c \<Longrightarrow> c \<noteq> CHR ''{'' \<and> c \<noteq> CHR ''['' \<and> c \<noteq> CHR 0x22"
  by (auto simp: is_digit_def)

lemma number_stop_simps [simp]:
  "number_stop []" "number_stop (CHR '','' # s)" "number_stop (CHR 0x0A # s)"
  by (simp_all add: number_stop_def is_digit_def)

lemma parse_value_null:
  assumes "list_all is_ws w"
  shows "parse_value (Suc n) (w @ serialize ind JNull @ rest) = Some (JNull, rest)"
proof -
  have "skip_ws (w @ serialize ind JNull @ rest) = CHR ''n'' # ''ull'' @ rest"
    using skip_ws_prefix [OF assms, of "CHR ''n''" "''ull'' @ rest"] by simp
  then show ?thesis
    by (simp add: parse_literal_def is_digit_def)
qed

lemma parse_value_bool:
  assumes "list_all is_ws w"
  shows "parse_value (Suc n) (w @ serialize ind (JBool b) @ rest) = Some (JBool b, rest)"
proof (cases b)
  case True
  have "skip_ws (w @ serialize ind (JBool True) @ rest) = CHR ''t'' # ''rue'' @ rest"
    using skip_ws_prefix [OF assms, of "CHR ''t''" "''rue'' @ rest"] by simp
  with True show ?thesis
    by (simp add: parse_literal_def is_digit_def)
next
  case False
  have "skip_ws (w @ serialize ind (JBool False) @ rest) = CHR ''f'' # ''alse'' @ rest"
    using skip_ws_prefix [OF assms, of "CHR ''f''" "''alse'' @ rest"] by simp
  with False show ?thesis
    by (simp add: parse_literal_def is_digit_def)
qed

lemma parse_value_num:
  assumes "list_all is_ws w" "number_stop rest"
  shows "parse_value (Suc n) (w @ serialize ind (JNum k) @ rest) = Some (JNum k, rest)"
proof -
  obtain c r where cr: "number_toString k = c # r" "c = CHR ''-'' \<or> is_digit c"
    using number_toString_head by blast
  then have nws: "\<not> is_ws c"
    using digit_not_ws by auto
  have sp: "c \<noteq> CHR ''{'' \<and> c \<noteq> CHR ''['' \<and> c \<noteq> CHR 0x22"
    using cr(2) digit_not_special by auto
  have "skip_ws (w @ serialize ind (JNum k) @ rest) = c # r @ rest"
    using skip_ws_prefix [OF assms(1) nws, of "r @ rest"] cr(1) by simp
  moreover have "parse_number (c # r @ rest) = Some (JNum k, rest)"
    using parse_number_toString [OF assms(2), of k] cr(1) by simp
  ultimately show ?thesis
    using cr(2) sp by simp
qed

lemma parse_value_str:
  assumes "list_all is_ws w"
  shows "parse_value (Suc n) (w @ serialize ind (JStr s) @ rest) = Some (JStr s, rest)"
proof -
  let ?tail = "concat (map quote_char s) @ CHR 0x22 # rest"
  have q: "serialize ind (JStr s) @ rest = CHR 0x22 # ?tail"
    by (simp add: QuoteJSONString_def)
  have "skip_ws (w @ serialize ind (JStr s) @ rest) = CHR 0x22 # ?tail"
    unfolding q using skip_ws_prefix [OF assms, of "CHR 0x22" ?tail] by simp
  moreover have "parse_chars [] ?tail = Some (s, rest)"
    using parse_chars_quoted [of "[]" s rest] by simp
  ultimately show ?thesis
    by simp
qed

lemma join_with_Cons:
  "xs \<noteq> [] \<Longrightarrow> join_with sep (x # xs) = x @ sep @ join_with sep xs"
  by (cases xs) simp_all

lemma parse_elements_joined:
  assumes "vs \<noteq> []"
    and "\<And>v n ind w rest. v \<in> S \<Longrightarrow> need v \<le> n \<Longrightarrow> list_all is_ws w \<Longrightarrow>
           list_all is_ws ind \<Longrightarrow> number_stop rest \<Longrightarrow>
           parse_value n (w @ serialize ind v @ rest) = Some (v, rest)"
    and "set vs \<subseteq> S" "list_all is_ws w" "list_all is_ws ind" "list_all is_ws ind'"
    and "sum_list (map (\<lambda>v. 1 + need v) vs) \<le> n"
  shows "parse_elements n acc
           (w @ join_with ('','' @ [CHR 0x0A] @ ind') (map (serialize ind') vs)
              @ [CHR 0x0A] @ ind @ '']'' @ rest)
         = Some (JArr (acc @ vs), rest)"
  using assms
proof (induction vs arbitrary: n acc w rule: list_nonempty_induct)
  case (single v)
  let ?tail = "CHR 0x0A # ind @ CHR '']'' # rest"
  from single obtain m where n: "n = Suc m" and m: "need v \<le> m"
    by (cases n) auto
  have "parse_value m (w @ serialize ind' v @ ?tail) = Some (v, ?tail)"
    using single m by (intro single.prems(1)) simp_all
  moreover have "skip_ws ?tail = CHR '']'' # rest"
    using skip_ws_prefix [of "CHR 0x0A # ind" "CHR '']''" rest] single.prems(4) by simp
  ultimately show ?case
    by (simp add: n)
next
  case (cons v vs)
  let ?sep = "'','' @ [CHR 0x0A] @ ind'"
  let ?more = "join_with ?sep (map (serialize ind') vs) @ [CHR 0x0A] @ ind @ '']'' @ rest"
  let ?tail = "CHR '','' # (CHR 0x0A # ind') @ ?more"
  from cons.prems obtain m where n: "n = Suc m" and m: "need v \<le> m"
    and m': "sum_list (map (\<lambda>v. 1 + need v) vs) \<le> m"
    by (cases n) auto
  have shape: "w @ join_with ?sep (map (serialize ind') (v # vs)) @ [CHR 0x0A] @ ind @ '']'' @ rest
      = w @ serialize ind' v @ ?tail"
    using cons.hyps(1) by (simp add: join_with_Cons)
  have "parse_value m (w @ serialize ind' v @ ?tail) = Some (v, ?tail)"
    using cons.prems m by (intro cons.prems(1)) simp_all
  moreover have "parse_elements m (acc @ [v]) ((CHR 0x0A # ind') @ ?more)
      = Some (JArr ((acc @ [v]) @ vs), rest)"
    using cons.prems m' by (intro cons.IH) simp_all
  ultimately show ?case
    unfolding shape by (simp add: n)
qed

lemma js_define_append:
  "k \<notin> fst ` set acc \<Longrightarrow> \<not> is_array_index k \<Longrightarrow> js_define acc k v = acc @ [(k, v)]"
  by (simp add: js_define_def)

lemma parse_member:
  assumes "\<And>n ind w rest. need v \<le> n \<Longrightarrow> list_all is_ws w \<Longrightarrow>
           list_all is_ws ind \<Longrightarrow> number_stop rest \<Longrightarrow>
           parse_value n (w @ serialize ind v @ rest) = Some (v, rest)"
    and "list_all is_ws w" "list_all is_ws ind'" "need v \<le> m" "number_stop tail"
    and "skip_ws tail = c # r" 
  shows "parse_members (Suc m) acc (w @ QuoteJSONString k @ '': '' @ serialize ind' v @ tail)
     = (if c = CHR '','' then parse_members m (js_define acc k v) r
        else if c = CHR ''}'' then Some (JObj (js_define acc k v), r)
        else None)"
proof -
  let ?after = "CHR '':'' # CHR '' '' # serialize ind' v @ tail"
  let ?body = "concat (map quote_char k) @ CHR 0x22 # ?after"
  have shape: "w @ QuoteJSONString k @ '': '' @ serialize ind' v @ tail = w @ CHR 0x22 # ?body"
    by (simp add: QuoteJSONString_def)
  have 1: "skip_ws (w @ CHR 0x22 # ?body) = CHR 0x22 # ?body"
    using assms(2) by (simp add: skip_ws_prefix)
  have 2: "parse_chars [] ?body = Some (k, ?after)"
    using parse_chars_quoted [of "[]" k ?after] by simp
  have 3: "parse_value m ([CHR '' ''] @ serialize ind' v @ tail) = Some (v, tail)"
    using assms by (intro assms(1)) simp_all
  show ?thesis
    unfolding shape using 1 2 3 assms(6) by simp
qed

lemma parse_members_joined:
  assumes "ps \<noteq> []"
    and "\<And>p n ind w rest. p \<in> S \<Longrightarrow> need (snd p) \<le> n \<Longrightarrow> list_all is_ws w \<Longrightarrow>
           list_all is_ws ind \<Longrightarrow> number_stop rest \<Longrightarrow>
           parse_value n (w @ serialize ind (snd p) @ rest) = Some (snd p, rest)"
    and "set ps \<subseteq> S" "list_all is_ws w" "list_all is_ws ind" "list_all is_ws ind'"
    and "sum_list (map (\<lambda>p. 1 + need (snd p)) ps) \<le> n"
    and "distinct (map fst (acc @ ps))" "\<forall>p \<in> set ps. \<not> is_array_index (fst p)"
  shows "parse_members n acc
           (w @ join_with ('','' @ [CHR 0x0A] @ ind')
                  (map (\<lambda>p. QuoteJSONString (fst p) @ '': '' @ serialize ind' (snd p)) ps)
              @ [CHR 0x0A] @ ind @ ''}'' @ rest)
         = Some (JObj (acc @ ps), rest)"
  using assms
proof (induction ps arbitrary: n acc w rule: list_nonempty_induct)
  case (single p)
  let ?tail = "CHR 0x0A # ind @ CHR ''}'' # rest"
  from single obtain m where n: "n = Suc m" and m: "need (snd p) \<le> m"
    by (cases n) auto
  have sk: "skip_ws ?tail = CHR ''}'' # rest"
    using skip_ws_prefix [of "CHR 0x0A # ind" "CHR ''}''" rest] single.prems(4) by simp
  have d: "js_define acc (fst p) (snd p) = acc @ [p]"
    using single.prems(7,8) by (simp add: js_define_append)
  have "parse_members (Suc m) acc
      (w @ QuoteJSONString (fst p) @ '': '' @ serialize ind' (snd p) @ ?tail)
     = Some (JObj (js_define acc (fst p) (snd p)), rest)"
    using single.prems m sk
    by (subst parse_member [where c = "CHR ''}''" and r = rest]) simp_all
  with d show ?case
    by (simp add: n)
next
  case (cons p ps)
  let ?f = "\<lambda>p. QuoteJSONString (fst p) @ '': '' @ serialize ind' (snd p)"
  let ?sep = "'','' @ [CHR 0x0A] @ ind'"
  let ?more = "join_with ?sep (map ?f ps) @ [CHR 0x0A] @ ind @ ''}'' @ rest"
  let ?tail = "CHR '','' # (CHR 0x0A # ind') @ ?more"
  from cons.prems obtain m where n: "n = Suc m" and m: "need (snd p) \<le> m"
    and m': "sum_list (map (\<lambda>p. 1 + need (snd p)) ps) \<le> m"
    by (cases n) auto
  have shape: "w @ join_with ?sep (map ?f (p # ps)) @ [CHR 0x0A] @ ind @ ''}'' @ rest
      = w @ QuoteJSONString (fst p) @ '': '' @ serialize ind' (snd p) @ ?tail"
    using cons.hyps(1) by (simp add: join_with_Cons)
  have d: "js_define acc (fst p) (snd p) = acc @ [p]"
    using cons.prems(7,8) by (simp add: js_define_append)
  have "parse_members (Suc m) acc
      (w @ QuoteJSONString (fst p) @ '': '' @ serialize ind' (snd p) @ ?tail)
     = parse_members m (js_define acc (fst p) (snd p)) ((CHR 0x0A # ind') @ ?more)"
    using cons.prems m
    by (subst parse_member [where c = "CHR '',''" and r = "(CHR 0x0A # ind') @ ?more"]) simp_all
  also have "\<dots> = parse_members m (acc @ [p]) ((CHR 0x0A # ind') @ ?more)"
    by (simp only: d)
  also have "\<dots> = Some (JObj ((acc @ [p]) @ ps), rest)"
    using cons.prems m' by (intro cons.IH) simp_all
  finally show ?case
    unfolding shape by (simp add: n)
qed

lemma serialize_head:
  "\<exists>c t. serialize ind v = c # t \<and> \<not> is_ws c \<and> c \<noteq> CHR '']'' \<and> c \<noteq> CHR ''}''"
proof (cases v)
  case (JNum k)
  obtain c r where "number_toString k = c # r" "c = CHR ''-'' \<or> is_digit c"
    using number_toString_head by blast
  with JNum show ?thesis
    by (auto simp: is_digit_def is_ws_def)
next
  case (JStr s)
  then show ?thesis by (simp add: QuoteJSONString_def)
qed (auto simp: is_ws_def)

lemma spaces_ws: "list_all is_ws ind \<Longrightarrow> list_all is_ws (CHR 0x0A # ind @ ''  '')"
  by simp

lemma parse_value_serialize:
  "plain v \<Longrightarrow> need v \<le> n \<Longrightarrow> list_all is_ws w \<Longrightarrow> list_all is_ws ind \<Longrightarrow>
   number_stop rest \<Longrightarrow> parse_value n (w @ serialize ind v @ rest) = Some (v, rest)"
proof (induction v arbitrary: n w ind rest)
  case JNull
  then obtain m where "n = Suc m"
    by (cases n) auto
  with JNull.prems(3) show ?case
    by (simp only: parse_value_null)
next
  case (JBool b)
  then obtain m where "n = Suc m"
    by (cases n) auto
  with JBool.prems(3) show ?case
    by (simp only: parse_value_bool)
next
  case (JNum k)
  then obtain m where "n = Suc m"
    by (cases n) auto
  with JNum.prems(3) JNum.prems(5) show ?case
    by (simp only: parse_value_num)
next
  case (JStr s)
  then obtain m where "n = Suc m"
    by (cases n) auto
  with JStr.prems(3) show ?case
    by (simp only: parse_value_str)
next
  case (JArr vs)
  from JArr.prems obtain m where n: "n = Suc m" and m: "sum_list (map (\<lambda>v. 1 + need v) vs) \<le> m"
    by (cases n) auto
  show ?case
  proof (cases "vs = []")
    case True
    have "skip_ws (w @ CHR ''['' # CHR '']'' # rest) = CHR ''['' # CHR '']'' # rest"
      using JArr.prems(3) by (simp add: skip_ws_prefix)
    with True show ?thesis
      by (simp add: n)
  next
    case False
    let ?ind' = "ind @ ''  ''"
    let ?r = "(CHR 0x0A # ?ind') @ join_with ('','' @ [CHR 0x0A] @ ?ind') (map (serialize ?ind') vs)
        @ [CHR 0x0A] @ ind @ '']'' @ rest"
    have shape: "w @ serialize ind (JArr vs) @ rest = w @ CHR ''['' # ?r"
      using False by simp
    have 1: "skip_ws (w @ CHR ''['' # ?r) = CHR ''['' # ?r"
      using JArr.prems(3) by (simp add: skip_ws_prefix)
    obtain v vs' where vs: "vs = v # vs'"
      using False by (cases vs) auto
    obtain c t where ct: "serialize ?ind' v = c # t" "\<not> is_ws c" "c \<noteq> CHR '']''"
      using serialize_head by blast
    have "\<exists>t'. join_with ('','' @ [CHR 0x0A] @ ?ind') (map (serialize ?ind') vs) = c # t'"
      using ct(1) vs by (cases vs') simp_all
    then obtain t' where "?r = (CHR 0x0A # ?ind') @ c # t' @ [CHR 0x0A] @ ind @ '']'' @ rest"
      by auto
    then have 2: "skip_ws ?r = c # t' @ [CHR 0x0A] @ ind @ '']'' @ rest"
      using skip_ws_prefix [of "CHR 0x0A # ?ind'" c] ct(2) JArr.prems(4) by simp
    have 3: "parse_elements m [] ?r = Some (JArr ([] @ vs), rest)"
    proof (rule parse_elements_joined [where S = "set vs"])
      show "vs \<noteq> []" by (rule False)
      show "set vs \<subseteq> set vs" by simp
      show "list_all is_ws (CHR 0x0A # ?ind')" using JArr.prems(4) by simp
      show "list_all is_ws ind" by (rule JArr.prems(4))
      show "list_all is_ws ?ind'" using JArr.prems(4) by simp
      show "sum_list (map (\<lambda>v. 1 + need v) vs) \<le> m" by (rule m)
      fix v n ind w rest
      assume "v \<in> set vs" "need v \<le> n" "list_all is_ws w" "list_all is_ws ind" "number_stop rest"
      moreover from \<open>v \<in> set vs\<close> JArr.prems(1) have "plain v" by simp
      ultimately show "parse_value n (w @ serialize ind v @ rest) = Some (v, rest)"
        by (intro JArr.IH)
    qed
    show ?thesis
      unfolding shape using 1 2 3 ct(3) by (simp add: n)
  qed
next
  case (JObj ps)
  from JObj.prems obtain m where n: "n = Suc m"
    and m: "sum_list (map (\<lambda>p. 1 + need (snd p)) ps) \<le> m"
    by (cases n) auto
  show ?case
  proof (cases "ps = []")
    case True
    have "skip_ws (w @ CHR ''{'' # CHR ''}'' # rest) = CHR ''{'' # CHR ''}'' # rest"
      using JObj.prems(3) by (simp add: skip_ws_prefix)
    with True show ?thesis
      by (simp add: n)
  next
    case False
    let ?ind' = "ind @ ''  ''"
    let ?f = "\<lambda>p. QuoteJSONString (fst p) @ '': '' @ serialize ?ind' (snd p)"
    let ?r = "(CHR 0x0A # ?ind') @ join_with ('','' @ [CHR 0x0A] @ ?ind') (map ?f ps)
        @ [CHR 0x0A] @ ind @ ''}'' @ rest"
    have shape: "w @ serialize ind (JObj ps) @ rest = w @ CHR ''{'' # ?r"
      using False by simp
    have 1: "skip_ws (w @ CHR ''{'' # ?r) = CHR ''{'' # ?r"
      using JObj.prems(3) by (simp add: skip_ws_prefix)
    obtain p ps' where ps: "ps = p # ps'"
      using False by (cases ps) auto
    have "\<exists>t'. join_with ('','' @ [CHR 0x0A] @ ?ind') (map ?f ps) = CHR 0x22 # t'"
      using ps by (cases ps') (simp_all add: QuoteJSONString_def)
    then obtain t' where "?r = (CHR 0x0A # ?ind') @ CHR 0x22 # t' @ [CHR 0x0A] @ ind @ ''}'' @ rest"
      by auto
    then have 2: "skip_ws ?r = CHR 0x22 # t' @ [CHR 0x0A] @ ind @ ''}'' @ rest"
      using skip_ws_prefix [of "CHR 0x0A # ?ind'" "CHR 0x22"] JObj.prems(4) by simp
    have 3: "parse_members m [] ?r = Some (JObj ([] @ ps), rest)"
    proof (rule parse_members_joined [where S = "set ps"])
      show "ps \<noteq> []" by (rule False)
      show "set ps \<subseteq> set ps" by simp
      show "list_all is_ws (CHR 0x0A # ?ind')" using JObj.prems(4) by simp
      show "list_all is_ws ind" by (rule JObj.prems(4))
      show "list_all is_ws ?ind'" using JObj.prems(4) by simp
      show "sum_list (map (\<lambda>p. 1 + need (snd p)) ps) \<le> m" by (rule m)
      show "distinct (map fst ([] @ ps))" using JObj.prems(1) by simp
      show "\<forall>p \<in> set ps. \<not> is_array_index (fst p)" using JObj.prems(1) by simp
      fix p n ind w rest
      assume "p \<in> set ps" "need (snd p) \<le> n" "list_all is_ws w" "list_all is_ws ind"
        "number_stop rest"
      moreover from \<open>p \<in> set ps\<close> JObj.prems(1) have "plain (snd p)" by simp
      moreover have "snd p \<in> Basic_BNFs.snds p"
        by (cases p) simp
      ultimately show "parse_value n (w @ serialize ind (snd p) @ rest) = Some (snd p, rest)"
        by (intro JObj.IH)
    qed
    show ?thesis
      unfolding shape using 1 2 3 by (simp add: n)
  qed
qed

lemma need_sum_le_join:
  assumes "xs \<noteq> []" "\<forall>x \<in> set xs. g x \<le> length (f x)" "1 \<le> length sep"
  shows "sum_list (map (\<lambda>x. 1 + g x) xs) \<le> length (join_with sep (map f xs)) + 1"
  using assms
proof (induction xs rule: list_nonempty_induct)
  case (single x)
  then show ?case by simp
next
  case (cons x xs)
  then have "sum_list (map (\<lambda>x. 1 + g x) xs) \<le> length (join_with sep (map f xs)) + 1"
    and "g x \<le> length (f x)"
    by simp_all
  moreover have "join_with sep (map f (x # xs)) = f x @ sep @ join_with sep (map f xs)"
    using cons.hyps(1) by (simp add: join_with_Cons)
  ultimately show ?case
    using cons.prems(2) by simp
qed

lemma need_le_length: "need v \<le> length (serialize ind v)"
proof (induction v arbitrary: ind)
  case JNull
  show ?case by simp
next
  case (JBool b)
  show ?case by simp
next
  case (JNum k)
  obtain c r where "number_toString k = c # r"
    using number_toString_head by blast
  then show ?case by simp
next
  case (JStr s)
  show ?case by (simp add: QuoteJSONString_def)
next
  case (JArr vs)
  show ?case
  proof (cases "vs = []")
    case True
    then show ?thesis by simp
  next
    case False
    let ?ind' = "ind @ ''  ''"
    let ?sep = "'','' @ [CHR 0x0A] @ ?ind'"
    have "sum_list (map (\<lambda>v. 1 + need v) vs)
        \<le> length (join_with ?sep (map (serialize ?ind') vs)) + 1"
      using False JArr.IH by (intro need_sum_le_join) simp_all
    with False show ?thesis by simp
  qed
next
  case (JObj ps)
  show ?case
  proof (cases "ps = []")
    case True
    then show ?thesis by simp
  next
    case False
    let ?ind' = "ind @ ''  ''"
    let ?sep = "'','' @ [CHR 0x0A] @ ?ind'"
    let ?f = "\<lambda>p. QuoteJSONString (fst p) @ '': '' @ serialize ?ind' (snd p)"
    have "\<forall>p \<in> set ps. need (snd p) \<le> length (?f p)"
    proof
      fix p assume "p \<in> set ps"
      moreover have "snd p \<in> Basic_BNFs.snds p" by (cases p) simp
      ultimately have "need (snd p) \<le> length (serialize ?ind' (snd p))"
        by (rule JObj.IH)
      then show "need (snd p) \<le> length (?f p)" by simp
    qed
    then have "sum_list (map (\<lambda>p. 1 + need (snd p)) ps)
        \<le> length (join_with ?sep (map ?f ps)) + 1"
      using False by (intro need_sum_le_join) simp_all
    with False show ?thesis by simp
  qed
qed

text \<open>Any plain value is read back from its text.\<close>

lemma JSON_parse_stringify:
  assumes "plain v"
  shows "JSON_parse (JSON_stringify v) = Inr v"
proof -
  have "need v \<le> 2 * length (serialize [] v) + 2"
    using need_le_length [of v "[]"] by simp
  with assms have "parse_value (2 * length (serialize [] v) + 2) ([] @ serialize [] v @ [])
      = Some (v, [])"
    by (intro parse_value_serialize) simp_all
  then show ?thesis
    by (simp add: JSON_parse_def JSON_stringify_def skip_ws_def)
qed

lemma not_index [simp]: "\<not> is_digit c \<Longrightarrow> \<not> is_array_index (c # k)"
  by (simp add: is_array_index_def)

lemma plain_deployment_json [simp]: "plain (deployment_json d)"
  by (simp add: deployment_json_def is_digit_def)

lemma plain_report_json [simp]: "plain (report_json ts net addr ds)"
  by (simp add: report_json_def is_digit_def)

subsection \<open>The report\<close>

lemma deployment_of_json_inverse [simp]: "deployment_of_json (deployment_json d) = Some d"
  by (simp add: deployment_of_json_def deployment_json_def get_str_def get_num_def get_bool_def
      get_prop_def)

lemma those_deployments [simp]:
  "those (map (deployment_of_json \<circ> deployment_json) ds) = Some ds"
  by (induction ds) simp_all

lemma report_deployments_inverse:
  "report_deployments (report_json ts net addr ds) = Some ds"
  by (simp add: report_deployments_def report_json_def get_prop_def)

lemma reportPath_not_addressPath [simp]: "reportPath net ts \<noteq> addressPath"
  by (simp add: reportPath_def addressPath_def)

text \<open>
  C7. The text that \<open>saveDeploymentReport\<close> writes for a report parses back to the same
  value, and reading the records out of the parsed value gives the record list that was
  written, field for field. After a save on writable paths, the report file holds such a
  text. The \<open>gasUsed\<close> field of a record is the decimal string of the receipt's big
  integer: it is stored as a JSON string, and its digits denote the integer exactly,
  whatever its size.
\<close>

theorem report_round_trip:
  "JSON_parse (JSON_stringify (report_json ts net addr ds)) = Inr (report_json ts net addr ds)
   \<and> report_deployments (report_json ts net addr ds) = Some ds
   \<and> (writable w (reportPath net (now_file w)) \<and> writable w addressPath \<longrightarrow>
        load_report (files (snd (saveDeploymentReport w net s))) (reportPath net (now_file w))
          = Inr (report_json (now_report w) net (wallet_address w) (deployments s)))
   \<and> d_gasUsed (deployment_record token address tx rcpt) = bigint_toString (gasUsed rcpt)
   \<and> digits_val (bigint_toString (gasUsed rcpt)) = gasUsed rcpt
   \<and> get_prop (deployment_json d) ''gasUsed'' = Some (JStr (d_gasUsed d))"
proof (intro conjI impI)
  show "JSON_parse (JSON_stringify (report_json ts net addr ds)) = Inr (report_json ts net addr ds)"
    by (simp add: JSON_parse_stringify)
  show "report_deployments (report_json ts net addr ds) = Some ds"
    by (rule report_deployments_inverse)
  show "d_gasUsed (deployment_record token address tx rcpt) = bigint_toString (gasUsed rcpt)"
    by (simp add: deployment_record_def)
  show "digits_val (bigint_toString (gasUsed rcpt)) = gasUsed rcpt"
    by simp
  show "get_prop (deployment_json d) ''gasUsed'' = Some (JStr (d_gasUsed d))"
    by (simp add: get_prop_def deployment_json_def)
next
  assume "writable w (reportPath net (now_file w)) \<and> writable w addressPath"
  then have "files (snd (saveDeploymentReport w net s)) (reportPath net (now_file w))
      = Some (JSON_stringify (report_json (now_report w) net (wallet_address w) (deployments s)))"
    by (simp add: saveDeploymentReport_writable)
  then show "load_report (files (snd (saveDeploymentReport w net s))) (reportPath net (now_file w))
          = Inr (report_json (now_report w) net (wallet_address w) (deployments s))"
    by (simp add: load_report_def JSON_parse_stringify)
qed

theorem report_round_trip_witness:
  "writable (world_with None) (reportPath ''sepolia'' (now_file (world_with None)))
   \<and> writable (world_with None) addressPath
   \<and> load_report (files (snd (saveDeploymentReport (world_with None) ''sepolia'' state_A)))
        (reportPath ''sepolia'' (now_file (world_with None)))
       = Inr (report_json ''2024-01-02T03:04:05.679Z'' ''sepolia'' ''0xdeployer'' [record_A])
   \<and> report_deployments (report_json ''2024-01-02T03:04:05.679Z'' ''sepolia'' ''0xdeployer'' [record_A])
       = Some [record_A]"
  using report_round_trip [of "''2024-01-02T03:04:05.679Z''" "''sepolia''" "''0xdeployer''"
      "[record_A]" "world_with None" state_A]
  by (simp add: state_A_deployments)
section \<open>Properties of the token interaction CLI\<close>

lemma ask_simps [simp]:
  "fst (ask c answer hist) = answer hist" "snd (ask c answer hist) = hist @ [c]"
  by (simp_all add: ask_def)

lemma grantRole_found:
  assumes "tokens_table symbol = Some tokenData"
  shows "grantRole cl tokens_table symbol role account hist
     = and_then (role_switch cl (td_address tokenData) role)
         (\<lambda>roleHash.
       and_then (ask (GrantRole (td_address tokenData) roleHash account)
                   (\<lambda>hist. grantRole_answer cl hist (td_address tokenData) roleHash account))
         (\<lambda>tx. ask (WaitGrant tx) (\<lambda>hist. waitGrant_answer cl hist tx))) hist"
  using assms by (simp add: grantRole_def and_then_def pure_step_def)

lemma grant_part_calls:
  "\<exists>rest. snd (and_then (ask (GrantRole address roleHash account)
                   (\<lambda>hist. grantRole_answer cl hist address roleHash account))
         (\<lambda>tx. ask (WaitGrant tx) (\<lambda>hist. waitGrant_answer cl hist tx)) hist)
     = hist @ [GrantRole address roleHash account] @ rest"
  by (cases "grantRole_answer cl hist address roleHash account")
     (simp_all add: and_then_def ask_def)

lemma role_switch_selected:
  "role_switch cl address role hist =
     (case selected_function role of
        Some f \<Rightarrow> (role_answer cl hist address f, hist @ [RoleLookup address f])
      | None \<Rightarrow> (Inr role, hist))"
  by (simp add: role_switch_def selected_function_def ask_def pure_step_def)

text \<open>
  C8, as the script has it. The \<open>switch\<close> is on \<open>role.toUpperCase()\<close>: a role string
  that reads MINTER, PAUSER or ADMIN in any letter case is resolved by asking the contract
  (\<open>MINTER_ROLE()\<close>, \<open>PAUSER_ROLE()\<close>, \<open>DEFAULT_ADMIN_ROLE()\<close>), and the identifier the
  contract returns is what \<open>grantRole\<close> is called with; when the lookup throws, nothing
  else is requested. Every other role string is handed to \<open>grantRole\<close> as it was given,
  in its original case, with no lookup.
\<close>

theorem grantRole_role_resolution:
  assumes "tokens_table symbol = Some tokenData"
  shows "(\<forall>f. selected_function role = Some f \<longrightarrow>
            (\<forall>e. role_answer cl hist (td_address tokenData) f = Inl e \<longrightarrow>
               grantRole cl tokens_table symbol role account hist
                 = (Inl e, hist @ [RoleLookup (td_address tokenData) f]))
          \<and> (\<forall>roleHash. role_answer cl hist (td_address tokenData) f = Inr roleHash \<longrightarrow>
               (\<exists>rest. snd (grantRole cl tokens_table symbol role account hist)
                  = hist @ [RoleLookup (td_address tokenData) f,
                            GrantRole (td_address tokenData) roleHash account] @ rest)))
       \<and> (selected_function role = None \<longrightarrow>
            (\<exists>rest. snd (grantRole cl tokens_table symbol role account hist)
               = hist @ [GrantRole (td_address tokenData) role account] @ rest))
       \<and> (selected_function role = Some MINTER_ROLE \<longleftrightarrow> toUpperCase role = ''MINTER'')
       \<and> (selected_function role = Some PAUSER_ROLE \<longleftrightarrow> toUpperCase role = ''PAUSER'')
       \<and> (selected_function role = Some DEFAULT_ADMIN_ROLE \<longleftrightarrow> toUpperCase role = ''ADMIN'')
       \<and> (selected_function role = None \<longleftrightarrow>
            toUpperCase role \<noteq> ''MINTER'' \<and> toUpperCase role \<noteq> ''PAUSER''
            \<and> toUpperCase role \<noteq> ''ADMIN'')"
proof (intro conjI allI impI)
  fix f e
  assume "selected_function role = Some f" "role_answer cl hist (td_address tokenData) f = Inl e"
  then show "grantRole cl tokens_table symbol role account hist
                 = (Inl e, hist @ [RoleLookup (td_address tokenData) f])"
    by (simp add: grantRole_found [where tokens_table = tokens_table and symbol = symbol, OF assms] and_then_def role_switch_selected)
next
  fix f roleHash
  assume "selected_function role = Some f"
    "role_answer cl hist (td_address tokenData) f = Inr roleHash"
  then have "grantRole cl tokens_table symbol role account hist
      = and_then (ask (GrantRole (td_address tokenData) roleHash account)
                   (\<lambda>hist. grantRole_answer cl hist (td_address tokenData) roleHash account))
         (\<lambda>tx. ask (WaitGrant tx) (\<lambda>hist. waitGrant_answer cl hist tx))
         (hist @ [RoleLookup (td_address tokenData) f])"
    by (simp add: grantRole_found [where tokens_table = tokens_table and symbol = symbol, OF assms] and_then_def role_switch_selected)
  then show "\<exists>rest. snd (grantRole cl tokens_table symbol role account hist)
                  = hist @ [RoleLookup (td_address tokenData) f,
                            GrantRole (td_address tokenData) roleHash account] @ rest"
    using grant_part_calls [of "td_address tokenData" roleHash account cl
        "hist @ [RoleLookup (td_address tokenData) f]"]
    by simp
next
  assume "selected_function role = None"
  then have "grantRole cl tokens_table symbol role account hist
      = and_then (ask (GrantRole (td_address tokenData) role account)
                   (\<lambda>hist. grantRole_answer cl hist (td_address tokenData) role account))
         (\<lambda>tx. ask (WaitGrant tx) (\<lambda>hist. waitGrant_answer cl hist tx)) hist"
    by (simp add: grantRole_found [where tokens_table = tokens_table and symbol = symbol, OF assms] and_then_def role_switch_selected)
  then show "\<exists>rest. snd (grantRole cl tokens_table symbol role account hist)
               = hist @ [GrantRole (td_address tokenData) role account] @ rest"
    using grant_part_calls [of "td_address tokenData" role account cl hist]
    by simp
qed (auto simp: selected_function_def)

lemma upper_minter: "toUpperCase ''minter'' = ''MINTER''"
  by (simp add: toUpperCase_def upper_char_def)

lemma run_grant_minter:
  "grantRole client0 table0 ''MTK'' ''minter'' ''0xacc'' []
     = (Inr 200, [RoleLookup ''0xaddrMTK'' MINTER_ROLE,
                  GrantRole ''0xaddrMTK'' ''0x9f2df0fe'' ''0xacc'', WaitGrant ''0xtxgrant''])"
  by (simp add: grantRole_def role_switch_def and_then_def pure_step_def ask_def upper_minter
      table0_def client0_def)

text \<open>
  The claim as the spec words it passes every role string other than MINTER, PAUSER and
  ADMIN through verbatim. The role string \<open>minter\<close> is none of the three, and it is not
  passed through: the contract is asked for \<open>MINTER_ROLE()\<close> and \<open>grantRole\<close> gets the
  identifier returned.
\<close>

theorem grantRole_lowercase_not_verbatim:
  "''minter'' \<noteq> ''MINTER'' \<and> ''minter'' \<noteq> ''PAUSER'' \<and> ''minter'' \<noteq> ''ADMIN''
   \<and> GrantRole ''0xaddrMTK'' ''minter'' ''0xacc''
       \<notin> set (snd (grantRole client0 table0 ''MTK'' ''minter'' ''0xacc'' []))
   \<and> snd (grantRole client0 table0 ''MTK'' ''minter'' ''0xacc'' [])
       = [RoleLookup ''0xaddrMTK'' MINTER_ROLE,
          GrantRole ''0xaddrMTK'' ''0x9f2df0fe'' ''0xacc'', WaitGrant ''0xtxgrant'']"
  by (simp add: run_grant_minter)

theorem grantRole_role_resolution_witness:
  "table0 ''MTK'' = Some \<lparr>td_address = ''0xaddrMTK'', td_decimals = 18\<rparr>
   \<and> (\<exists>rest. snd (grantRole client0 table0 ''MTK'' ''Minter'' ''0xacc'' [])
        = [RoleLookup ''0xaddrMTK'' MINTER_ROLE, GrantRole ''0xaddrMTK'' ''0x9f2df0fe'' ''0xacc''] @ rest)
   \<and> (\<exists>rest. snd (grantRole client0 table0 ''MTK'' ''0xabcdef'' ''0xacc'' [])
        = [GrantRole ''0xaddrMTK'' ''0xabcdef'' ''0xacc''] @ rest)"
proof -
  have t: "table0 ''MTK'' = Some \<lparr>td_address = ''0xaddrMTK'', td_decimals = 18\<rparr>"
    by (simp add: table0_def)
  have s1: "selected_function ''Minter'' = Some MINTER_ROLE"
    by (simp add: selected_function_def toUpperCase_def upper_char_def)
  have s2: "selected_function ''0xabcdef'' = None"
    by (simp add: selected_function_def toUpperCase_def upper_char_def)
  have a: "role_answer client0 [] ''0xaddrMTK'' MINTER_ROLE = Inr ''0x9f2df0fe''"
    by (simp add: client0_def)
  from grantRole_role_resolution [where tokens_table = table0 and symbol = "''MTK''", OF t,
      of "''Minter''" client0 "[]" "''0xacc''"] s1 a
  have "\<exists>rest. snd (grantRole client0 table0 ''MTK'' ''Minter'' ''0xacc'' [])
        = [RoleLookup ''0xaddrMTK'' MINTER_ROLE, GrantRole ''0xaddrMTK'' ''0x9f2df0fe'' ''0xacc''] @ rest"
    by simp
  moreover from grantRole_role_resolution [where tokens_table = table0 and symbol = "''MTK''", OF t,
      of "''0xabcdef''" client0 "[]" "''0xacc''"] s2
  have "\<exists>rest. snd (grantRole client0 table0 ''MTK'' ''0xabcdef'' ''0xacc'' [])
        = [GrantRole ''0xaddrMTK'' ''0xabcdef'' ''0xacc''] @ rest"
    by simp
  ultimately show ?thesis using t by simp
qed

end
